theory Spec2Isabelle
  imports Main "HOL-Library.Word" "HOL-Library.Monad_Syntax"
begin

unbundle bit_operations_syntax

section \<open>Data model of FreeRTOS\_IGMP\<close>

text \<open>
  Machine integers are words of the width the source declares. A pointer is an address;
  \<open>0\<close> is \<open>NULL\<close>. \<open>BaseType_t\<close> is the port's signed native integer (\<open>portBASE_TYPE\<close>,
  declared in the kernel's port layer, \<open>long\<close> on the 32-bit ports): it is a 32-bit word read
  as a signed number with \<open>sint\<close>, so that \<open>++\<close> at the largest value \<open>2147483647\<close> wraps
  around to the smallest, \<open>-2147483648\<close>, as two's-complement hardware does.
\<close>

type_synonym u8 = "8 word"
type_synonym u32 = "32 word"
type_synonym BaseType_t = "32 word"
type_synonym ptr = nat
type_synonym MACAddress_t = "u8 list"

text \<open>
  \<open>struct freertos_ip_mreq\<close>: of each \<open>freertos_sockaddr\<close> only \<open>sin_addr\<close> is read by the
  functions of \<open>FreeRTOS_IGMP.c\<close>; the field below stands for \<open>imr_multiaddr.sin_addr\<close>
  (and \<open>imr_interface.sin_addr\<close>).
\<close>

record freertos_ip_mreq =
  imr_multiaddr :: u32
  imr_interface :: u32

text \<open>
  \<open>IGMPReportDesc_t\<close> and \<open>MCastGroupDesc_t\<close>. The intrusive \<open>xListItem\<close> of each is
  represented by the position of the descriptor's address in the list that holds it.
\<close>

record IGMPReportDesc_t =
  mreq :: freertos_ip_mreq
  xNumSockets :: BaseType_t
  ucCountDown :: u8

record MCastGroupDesc_t =
  mreq :: freertos_ip_mreq
  pxSocket :: ptr
  pxIGMPReportDesc :: ptr

datatype eFrameProcessingResult_t =
  eReleaseBuffer | eProcessBuffer | eReturnEthernetFrame | eFrameConsumed

text \<open>
  A network buffer: the bytes at \<open>pucEthernetBuffer\<close> and the length the descriptor claims.
\<close>

record NetworkBufferDescriptor_t =
  pucEthernetBuffer :: "u8 list"
  xDataLength :: nat

text \<open>
  The frame \<open>vSendIGMP\<close> builds, by the header fields it assigns from its arguments and from
  literals. The Ethernet frame type, the IP protocol, length, identification and fragment
  fields and both checksums are computed from constants and functions declared outside this
  file (\<open>ipIPv4_FRAME_TYPE\<close>, \<open>ipPROTOCOL_IGMP\<close>, \<open>FreeRTOS_htons\<close>, \<open>usGenerateChecksum\<close>);
  they are not part of the record.
\<close>

record IGMPPacket_t =
  xDestinationAddress :: MACAddress_t
  xSourceAddress :: MACAddress_t
  ulSourceIPAddress :: u32
  ulDestinationIPAddress :: u32
  ucVersionHeaderLength :: u8
  ucDifferentiatedServicesCode :: u8
  ucTimeToLive :: u8
  ucTypeOfMessage :: u8
  ucMaxResponseTime :: u8
  uiGroupAddress :: u32
  uiFrameLen :: nat

text \<open>Calls to the external collaborators, in the order they are made.\<close>

datatype event =
  EMAC_AddMulticastAddress MACAddress_t
  | EMAC_RemoveMulticastAddress MACAddress_t
  | NetworkInterfaceOutputToPortX IGMPPacket_t

text \<open>
  What the file takes from the rest of the stack: the random source and the buffer pool
  (the outcome of the \<open>n\<close>-th call; \<open>None\<close> is \<open>pdFALSE\<close>, \<open>False\<close> is a \<open>NULL\<close> buffer),
  the multicast MAC mapping, the local addresses, the two socket-option codes and the
  configuration constants.
\<close>

record env =
  xApplicationGetRandomNumber :: "nat \<Rightarrow> u32 option"
  pxGetNetworkBufferWithDescriptor :: "nat \<Rightarrow> bool"
  vSetMultiCastIPv4MacAddress :: "u32 \<Rightarrow> MACAddress_t"
  ipLOCAL_MAC_ADDRESS :: MACAddress_t
  ipLOCAL_IP_ADDRESS :: u32
  eSocketOptAddMembership :: u8
  eSocketOptDropMembership :: u8
  ipconfigUSE_LLMNR :: bool
  ipLLMNR_IP_ADDR :: u32
  ipIGMP_IP_ADDR :: u32

text \<open>
  The memory the file works on: the schedule list (addresses of report descriptors, in
  list order), the allocated report and group descriptors (one map from addresses per
  descriptor type; an address outside the map holds no descriptor, and a read, write or
  \<open>vPortFree\<close> through it is a fault), each socket's \<open>u.xUDP.xMulticastGroupsList\<close>, the
  two counters, the numbers of calls made so far to the random source and to the buffer
  pool, and the trace of external calls. A function that can fault returns an option;
  \<open>None\<close> is the fault.
\<close>

record igmp_state =
  xIGMP_ScheduleList :: "ptr list"
  reportHeap :: "ptr \<rightharpoonup> IGMPReportDesc_t"
  groupHeap :: "ptr \<rightharpoonup> MCastGroupDesc_t"
  xMulticastGroupsList :: "ptr \<Rightarrow> ptr list"
  uiNumIGMP_Queries :: u32
  uiNumIGMP_Reports :: u32
  rndCalls :: nat
  bufCalls :: nat
  events :: "event list"

definition ipIGMP_MEMBERSHIP_QUERY :: u8 where "ipIGMP_MEMBERSHIP_QUERY = 0x11"
definition ipIGMP_MEMBERSHIP_REPORT_V1 :: u8 where "ipIGMP_MEMBERSHIP_REPORT_V1 = 0x12"
definition ipIGMP_MEMBERSHIP_REPORT_V2 :: u8 where "ipIGMP_MEMBERSHIP_REPORT_V2 = 0x16"
definition ipIGMP_MEMBERSHIP_REPORT_V3 :: u8 where "ipIGMP_MEMBERSHIP_REPORT_V3 = 0x22"

text \<open>
  The packed \<open>IGMPPacket_t\<close>: a 14-byte Ethernet header, a 20-byte IPv4 header and the 8-byte
  IGMP header (type, max response time, checksum, group address).
\<close>

definition ipSIZE_OF_ETH_HEADER :: nat where "ipSIZE_OF_ETH_HEADER = 14"
definition ipSIZE_OF_IPv4_HEADER :: nat where "ipSIZE_OF_IPv4_HEADER = 20"
definition ipSIZE_OF_IGMP_HEADER :: nat where "ipSIZE_OF_IGMP_HEADER = 8"

definition sizeof_IGMPPacket_t :: nat where
  "sizeof_IGMPPacket_t = ipSIZE_OF_ETH_HEADER + ipSIZE_OF_IPv4_HEADER + ipSIZE_OF_IGMP_HEADER"

definition offset_ucTypeOfMessage :: nat where
  "offset_ucTypeOfMessage = ipSIZE_OF_ETH_HEADER + ipSIZE_OF_IPv4_HEADER"

definition offset_ucMaxResponseTime :: nat where
  "offset_ucMaxResponseTime = ipSIZE_OF_ETH_HEADER + ipSIZE_OF_IPv4_HEADER + 1"

definition offset_uiGroupAddress :: nat where
  "offset_uiGroupAddress = ipSIZE_OF_ETH_HEADER + ipSIZE_OF_IPv4_HEADER + 4"

text \<open>A read outside the buffer's bytes is a fault: \<open>None\<close>.\<close>

definition read_u8 :: "NetworkBufferDescriptor_t \<Rightarrow> nat \<Rightarrow> u8 option" where
  "read_u8 b off =
     (if off < length (pucEthernetBuffer b) then Some (pucEthernetBuffer b ! off) else None)"

text \<open>
  A 32-bit field, assembled in memory order. The file only compares the group address of
  an inbound packet with 0, which does not depend on the byte order.
\<close>

definition read_u32 :: "NetworkBufferDescriptor_t \<Rightarrow> nat \<Rightarrow> u32 option" where
  "read_u32 b off = do {
     b0 \<leftarrow> read_u8 b off;
     b1 \<leftarrow> read_u8 b (off + 1);
     b2 \<leftarrow> read_u8 b (off + 2);
     b3 \<leftarrow> read_u8 b (off + 3);
     Some (ucast b0 OR push_bit 8 (ucast b1) OR push_bit 16 (ucast b2) OR push_bit 24 (ucast b3))
   }"

text \<open>The group address of a descriptor: \<open>mreq.imr_multiaddr.sin_addr\<close>.\<close>

definition report_addr :: "IGMPReportDesc_t \<Rightarrow> u32" where
  "report_addr d = imr_multiaddr (IGMPReportDesc_t.mreq d)"

definition group_addr :: "MCastGroupDesc_t \<Rightarrow> u32" where
  "group_addr d = imr_multiaddr (MCastGroupDesc_t.mreq d)"

section \<open>eProcessIGMPPacket\<close>

text \<open>\<open>ucMaxRespTime = max( 2, ucMaxResponseTime ); ucMaxRespTime--;\<close>\<close>

definition ucMaxRespTime :: "u8 \<Rightarrow> u8" where
  "ucMaxRespTime m = max 2 m - 1"

text \<open>
  \<open>RandMask = ucMaxRespTime; RandMask--; RandMask |= RandMask >> 1;
  RandMask |= RandMask >> 2; if( 0 == RandMask ) RandMask = 1;\<close>
\<close>

definition RandMask :: "u8 \<Rightarrow> u32" where
  "RandMask w =
     (let n0 = (ucast w :: u32) - 1;
          n1 = n0 OR drop_bit 1 n0;
          n2 = n1 OR drop_bit 2 n1
      in if n2 = 0 then 1 else n2)"

text \<open>\<open>while( uiRandom > ucMaxRespTime ) uiRandom -= ucMaxRespTime;\<close>\<close>

partial_function (option) reduce_random :: "u32 \<Rightarrow> u32 \<Rightarrow> u32 option" where
  "reduce_random uiRandom w =
     (if uiRandom > w then reduce_random (uiRandom - w) w else Some uiRandom)"

text \<open>
  The \<open>else\<close> branch of the draw: mask, replace 0 by 1, reduce by repeated subtraction.
\<close>

definition masked_random :: "u8 \<Rightarrow> u32 \<Rightarrow> u32 option" where
  "masked_random m uiRandom =
     (let r = uiRandom AND RandMask (ucMaxRespTime m);
          r1 = (if r = 0 then 1 else r)
      in reduce_random r1 (ucast (ucMaxRespTime m)))"

text \<open>
  The loop over \<open>xIGMP_ScheduleList\<close> of a general query; \<open>m\<close> is the packet's
  \<open>ucMaxResponseTime\<close> and \<open>c\<close> is \<open>uiNonRandomCounter\<close>.
\<close>

fun schedule_reports :: "env \<Rightarrow> u8 \<Rightarrow> ptr list \<Rightarrow> u32 \<Rightarrow> igmp_state \<Rightarrow> igmp_state option" where
  "schedule_reports e m [] c s = Some s"
| "schedule_reports e m (p # ps) c s =
     (case reportHeap s p of
        None \<Rightarrow> None
      | Some pxIRD \<Rightarrow>
          if ucCountDown pxIRD \<le> 0 \<or> ucCountDown pxIRD \<ge> m then
            (case xApplicationGetRandomNumber e (rndCalls s) of
               None \<Rightarrow>
                 schedule_reports e m ps
                   (if c + 1 > ucast (ucMaxRespTime m) then 1 else c + 1)
                   (s\<lparr>reportHeap := (reportHeap s)(p \<mapsto> pxIRD\<lparr>ucCountDown := ucast c\<rparr>),
                      rndCalls := Suc (rndCalls s)\<rparr>)
             | Some uiRandom \<Rightarrow>
                 (case masked_random m uiRandom of
                    None \<Rightarrow> None
                  | Some r \<Rightarrow>
                      schedule_reports e m ps c
                        (s\<lparr>reportHeap := (reportHeap s)(p \<mapsto> pxIRD\<lparr>ucCountDown := ucast r\<rparr>),
                           rndCalls := Suc (rndCalls s)\<rparr>)))
          else schedule_reports e m ps c s)"

definition eProcessIGMPPacket ::
  "env \<Rightarrow> NetworkBufferDescriptor_t \<Rightarrow> igmp_state \<Rightarrow> (eFrameProcessingResult_t \<times> igmp_state) option"
where
  "eProcessIGMPPacket e pxNetworkBuffer s =
     (let eReturn = eReleaseBuffer in
      if xDataLength pxNetworkBuffer < sizeof_IGMPPacket_t then Some (eReleaseBuffer, s)
      else do {
        ty \<leftarrow> read_u8 pxNetworkBuffer offset_ucTypeOfMessage;
        if ty = ipIGMP_MEMBERSHIP_QUERY then do {
          let s1 = s\<lparr>uiNumIGMP_Queries := uiNumIGMP_Queries s + 1\<rparr>;
          grp \<leftarrow> read_u32 pxNetworkBuffer offset_uiGroupAddress;
          if grp = 0 then do {
            m \<leftarrow> read_u8 pxNetworkBuffer offset_ucMaxResponseTime;
            s2 \<leftarrow> schedule_reports e m (xIGMP_ScheduleList s1) 1 s1;
            Some (eReleaseBuffer, s2)
          } else Some (eReleaseBuffer, s1)
        }
        else if ty = ipIGMP_MEMBERSHIP_REPORT_V1 \<or> ty = ipIGMP_MEMBERSHIP_REPORT_V2
                \<or> ty = ipIGMP_MEMBERSHIP_REPORT_V3
        then Some (eReturn, s\<lparr>uiNumIGMP_Reports := uiNumIGMP_Reports s + 1\<rparr>)
        else Some (eReturn, s)
      })"

section \<open>vSendIGMP and vHandleIGMP\_Event\<close>

text \<open>
  \<open>vSendIGMP\<close> asks the pool for a buffer; with none it does nothing, otherwise it fills the
  headers and hands the frame to \<open>xNetworkInterfaceOutputToPortX\<close>.
\<close>

definition igmp_frame :: "env \<Rightarrow> u8 \<Rightarrow> u8 \<Rightarrow> u32 \<Rightarrow> u32 \<Rightarrow> IGMPPacket_t" where
  "igmp_frame e ucIgmpMsgType ucIgmpRespTime uiMulticastGroup_NBO uiSendToAddr_NBO =
     \<lparr>xDestinationAddress = vSetMultiCastIPv4MacAddress e uiSendToAddr_NBO,
      xSourceAddress = ipLOCAL_MAC_ADDRESS e,
      ulSourceIPAddress = ipLOCAL_IP_ADDRESS e,
      ulDestinationIPAddress = uiSendToAddr_NBO,
      ucVersionHeaderLength = 0x45,
      ucDifferentiatedServicesCode = 0,
      ucTimeToLive = 1,
      ucTypeOfMessage = ucIgmpMsgType,
      ucMaxResponseTime = ucIgmpRespTime,
      uiGroupAddress = uiMulticastGroup_NBO,
      uiFrameLen = sizeof_IGMPPacket_t\<rparr>"

definition vSendIGMP :: "env \<Rightarrow> u8 \<Rightarrow> u8 \<Rightarrow> u32 \<Rightarrow> u32 \<Rightarrow> igmp_state \<Rightarrow> igmp_state" where
  "vSendIGMP e ucIgmpMsgType ucIgmpRespTime uiMulticastGroup_NBO uiSendToAddr_NBO s =
     (if pxGetNetworkBufferWithDescriptor e (bufCalls s) then
        s\<lparr>bufCalls := Suc (bufCalls s),
          events := events s @ [NetworkInterfaceOutputToPortX
            (igmp_frame e ucIgmpMsgType ucIgmpRespTime uiMulticastGroup_NBO uiSendToAddr_NBO)]\<rparr>
      else s\<lparr>bufCalls := Suc (bufCalls s)\<rparr>)"

text \<open>The loop of \<open>vHandleIGMP_Event\<close> over the schedule list.\<close>

fun handle_reports :: "env \<Rightarrow> ptr list \<Rightarrow> igmp_state \<Rightarrow> igmp_state option" where
  "handle_reports e [] s = Some s"
| "handle_reports e (p # ps) s =
     (case reportHeap s p of
        None \<Rightarrow> None
      | Some pxIRD \<Rightarrow>
          if ucCountDown pxIRD > 0 then
            (let s1 = s\<lparr>reportHeap := (reportHeap s)
                        (p \<mapsto> pxIRD\<lparr>ucCountDown := ucCountDown pxIRD - 1\<rparr>)\<rparr>
             in if ucCountDown pxIRD - 1 = 0
                then handle_reports e ps
                       (vSendIGMP e ipIGMP_MEMBERSHIP_REPORT_V2 0
                          (report_addr pxIRD) (report_addr pxIRD) s1)
                else handle_reports e ps s1)
          else handle_reports e ps s)"

definition vHandleIGMP_Event :: "env \<Rightarrow> igmp_state \<Rightarrow> igmp_state option" where
  "vHandleIGMP_Event e s = handle_reports e (xIGMP_ScheduleList s) s"

section \<open>The report registry\<close>

text \<open>
  The search loop the three list walks share: the first item of the list whose descriptor
  has the wanted group address. \<open>Some None\<close> is the loop ending with
  \<open>pxIterator == xEnd\<close>; \<open>None\<close> is a read through an address that holds no descriptor.
\<close>

fun scan_list :: "(ptr \<rightharpoonup> 'a) \<Rightarrow> ('a \<Rightarrow> u32) \<Rightarrow> u32 \<Rightarrow> ptr list \<Rightarrow> ptr option option" where
  "scan_list h f a [] = Some None"
| "scan_list h f a (p # ps) =
     (case h p of
        None \<Rightarrow> None
      | Some d \<Rightarrow> if f d = a then Some (Some p) else scan_list h f a ps)"

text \<open>\<open>vPortFree\<close> of a report or a group descriptor; freeing what is not allocated is a fault.\<close>

definition vPortFree_report :: "ptr \<Rightarrow> igmp_state \<Rightarrow> igmp_state option" where
  "vPortFree_report p s =
     (case reportHeap s p of
        None \<Rightarrow> None
      | Some _ \<Rightarrow> Some (s\<lparr>reportHeap := (reportHeap s)(p := None)\<rparr>))"

definition vPortFree_group :: "ptr \<Rightarrow> igmp_state \<Rightarrow> igmp_state option" where
  "vPortFree_group p s =
     (case groupHeap s p of
        None \<Rightarrow> None
      | Some _ \<Rightarrow> Some (s\<lparr>groupHeap := (groupHeap s)(p := None)\<rparr>))"

text \<open>
  \<open>vRemoveIGMPReportFromList\<close>. Its argument points to the \<open>mreq\<close> inside a group
  descriptor, which the function only reads; the model passes the value read.
\<close>

definition vRemoveIGMPReportFromList :: "freertos_ip_mreq \<Rightarrow> igmp_state \<Rightarrow> igmp_state option" where
  "vRemoveIGMPReportFromList pMCastGroup s = do {
     found \<leftarrow> scan_list (reportHeap s) report_addr (imr_multiaddr pMCastGroup)
                (xIGMP_ScheduleList s);
     case found of
       None \<Rightarrow> Some s
     | Some p \<Rightarrow> do {
         pxIRD \<leftarrow> reportHeap s p;
         let n = (if 0 < sint (xNumSockets pxIRD) then xNumSockets pxIRD - 1
                  else xNumSockets pxIRD);
         let s1 = s\<lparr>reportHeap := (reportHeap s)(p \<mapsto> pxIRD\<lparr>xNumSockets := n\<rparr>)\<rparr>;
         if 0 = n
         then vPortFree_report p (s1\<lparr>xIGMP_ScheduleList := remove1 p (xIGMP_ScheduleList s1)\<rparr>)
         else Some s1
       }
   }"

text \<open>
  \<open>xAddIGMPReportToList\<close>; the result \<open>True\<close> is \<open>pdTRUE\<close> (the entry was consumed).
  The \<open>configASSERT\<close> and every access through \<open>pNewEntry\<close> need the new entry allocated.
  When the random source fails the address of the new entry, cast to \<open>uint32_t\<close>, is used.
  \<open>pxIRD->xNumSockets++\<close> is the addition of the \<open>BaseType_t\<close> word: at the largest value
  it wraps around.
\<close>

definition xAddIGMPReportToList :: "env \<Rightarrow> ptr \<Rightarrow> igmp_state \<Rightarrow> (bool \<times> igmp_state) option" where
  "xAddIGMPReportToList e pNewEntry s = do {
     new \<leftarrow> reportHeap s pNewEntry;
     found \<leftarrow> scan_list (reportHeap s) report_addr (report_addr new) (xIGMP_ScheduleList s);
     case found of
       Some p \<Rightarrow> do {
         pxIRD \<leftarrow> reportHeap s p;
         Some (False,
           s\<lparr>reportHeap := (reportHeap s)(p \<mapsto> pxIRD\<lparr>xNumSockets := xNumSockets pxIRD + 1\<rparr>)\<rparr>)
       }
     | None \<Rightarrow>
         (let uiRandom = (case xApplicationGetRandomNumber e (rndCalls s) of
                            None \<Rightarrow> (of_nat pNewEntry :: u32)
                          | Some r \<Rightarrow> r);
              uiRandom' = 2 + (uiRandom AND 0x07)
          in Some (True,
               s\<lparr>reportHeap := (reportHeap s)(pNewEntry \<mapsto>
                     new\<lparr>xNumSockets := 1, ucCountDown := ucast uiRandom'\<rparr>),
                 xIGMP_ScheduleList := xIGMP_ScheduleList s @ [pNewEntry],
                 rndCalls := Suc (rndCalls s)\<rparr>))
   }"

section \<open>vModifyMulticastMembership\<close>

text \<open>
  The search loop over the socket's group list with its \<open>uxListRemove\<close> on a match of a
  drop request; the result carries \<open>pxIterator\<close> (\<open>None\<close> for \<open>xEnd\<close>),
  \<open>bFreeInputItem\<close> and \<open>bFreeMatchedItem\<close>.
\<close>

definition locate_group ::
  "env \<Rightarrow> ptr \<Rightarrow> MCastGroupDesc_t \<Rightarrow> u8 \<Rightarrow> igmp_state \<Rightarrow> (ptr option \<times> bool \<times> bool \<times> igmp_state) option"
where
  "locate_group e pxMulticastGroup g bAction s = do {
     found \<leftarrow> scan_list (groupHeap s) group_addr (group_addr g)
                (xMulticastGroupsList s (pxSocket g));
     case found of
       None \<Rightarrow> Some (None, True, False, s)
     | Some pxMCG \<Rightarrow>
         if eSocketOptDropMembership e = bAction
         then Some (Some pxMCG, pxMulticastGroup \<noteq> pxMCG, True,
                s\<lparr>xMulticastGroupsList := (xMulticastGroupsList s)
                     (pxSocket g := remove1 pxMCG (xMulticastGroupsList s (pxSocket g)))\<rparr>)
         else Some (Some pxMCG, True, False, s)
   }"

text \<open>The branch \<open>eSocketOptAddMembership == bAction\<close>; the result carries \<open>bFreeInputItem\<close>.\<close>

definition add_membership ::
  "env \<Rightarrow> ptr \<Rightarrow> MCastGroupDesc_t \<Rightarrow> ptr option \<Rightarrow> bool \<Rightarrow> igmp_state \<Rightarrow> (bool \<times> igmp_state) option"
where
  "add_membership e pxMulticastGroup g pxIterator bFreeInputItem s =
     (case pxIterator of
        None \<Rightarrow>
          (let s1 = s\<lparr>xMulticastGroupsList := (xMulticastGroupsList s)
                        (pxSocket g := xMulticastGroupsList s (pxSocket g) @ [pxMulticastGroup]),
                      events := events s @
                        [EMAC_AddMulticastAddress (vSetMultiCastIPv4MacAddress e (group_addr g))]\<rparr>
           in if pxIGMPReportDesc g \<noteq> 0 then do {
                (bReportItemConsumed, s2) \<leftarrow> xAddIGMPReportToList e (pxIGMPReportDesc g) s1;
                if \<not> bReportItemConsumed then do {
                  s3 \<leftarrow> vPortFree_report (pxIGMPReportDesc g) s2;
                  Some (False, s3\<lparr>groupHeap := (groupHeap s3)
                                   (pxMulticastGroup \<mapsto> g\<lparr>pxIGMPReportDesc := 0\<rparr>)\<rparr>)
                } else Some (False, s2)
              } else Some (False, s1))
      | Some _ \<Rightarrow>
          if pxIGMPReportDesc g \<noteq> 0 then do {
            s1 \<leftarrow> vPortFree_report (pxIGMPReportDesc g) s;
            Some (bFreeInputItem, s1\<lparr>groupHeap := (groupHeap s1)
                                      (pxMulticastGroup \<mapsto> g\<lparr>pxIGMPReportDesc := 0\<rparr>)\<rparr>)
          } else Some (bFreeInputItem, s))"

text \<open>The \<open>else\<close> branch: a request that is not an add is a drop.\<close>

definition drop_membership ::
  "env \<Rightarrow> MCastGroupDesc_t \<Rightarrow> ptr option \<Rightarrow> igmp_state \<Rightarrow> igmp_state option"
where
  "drop_membership e g pxIterator s =
     (case pxIterator of
        None \<Rightarrow> Some s
      | Some pxMCG \<Rightarrow> do {
          let s1 = s\<lparr>events := events s @
                     [EMAC_RemoveMulticastAddress (vSetMultiCastIPv4MacAddress e (group_addr g))]\<rparr>;
          mcg \<leftarrow> groupHeap s1 pxMCG;
          vRemoveIGMPReportFromList (MCastGroupDesc_t.mreq mcg) s1
        })"

definition vModifyMulticastMembership :: "env \<Rightarrow> ptr \<Rightarrow> u8 \<Rightarrow> igmp_state \<Rightarrow> igmp_state option" where
  "vModifyMulticastMembership e pxMulticastGroup bAction s =
     (if eSocketOptAddMembership e \<noteq> bAction \<and> eSocketOptDropMembership e \<noteq> bAction
      then Some s
      else do {
        g \<leftarrow> groupHeap s pxMulticastGroup;
        (pxIterator, bFreeInputItem, bFreeMatchedItem, s1) \<leftarrow>
           locate_group e pxMulticastGroup g bAction s;
        (bFreeInputItem', s2) \<leftarrow>
           (if eSocketOptAddMembership e = bAction
            then add_membership e pxMulticastGroup g pxIterator bFreeInputItem s1
            else map_option (Pair bFreeInputItem) (drop_membership e g pxIterator s1));
        s3 \<leftarrow> (if bFreeInputItem' then vPortFree_group pxMulticastGroup s2 else Some s2);
        if bFreeMatchedItem
        then (case pxIterator of None \<Rightarrow> None | Some pxMCG \<Rightarrow> vPortFree_group pxMCG s3)
        else Some s3
      })"

section \<open>vIGMP\_Init\<close>

text \<open>
  \<open>pxIRD\<close> is what \<open>pvPortMalloc\<close> returns for the LLMNR report (0 when it fails). The
  \<open>sin_family\<close> and \<open>sin_len\<close> members the function also sets are not modelled.
\<close>

definition vIGMP_Init :: "env \<Rightarrow> ptr \<Rightarrow> igmp_state \<Rightarrow> igmp_state option" where
  "vIGMP_Init e pxIRD s =
     (let s0 = s\<lparr>xIGMP_ScheduleList := [],
                 events := events s @
                   [EMAC_AddMulticastAddress (vSetMultiCastIPv4MacAddress e (ipIGMP_IP_ADDR e))]\<rparr>
      in if ipconfigUSE_LLMNR e \<and> pxIRD \<noteq> 0 then do {
           let s1 = s0\<lparr>reportHeap := (reportHeap s0)(pxIRD \<mapsto>
                      \<lparr>IGMPReportDesc_t.mreq = \<lparr>imr_multiaddr = ipLLMNR_IP_ADDR e, imr_interface = 0\<rparr>,
                       xNumSockets = 0, ucCountDown = 0\<rparr>)\<rparr>;
           (bReportItemConsumed, s2) \<leftarrow> xAddIGMPReportToList e pxIRD s1;
           if \<not> bReportItemConsumed then vPortFree_report pxIRD s2 else Some s2
         } else Some s0)"

section \<open>Well-formedness, observations and concrete inputs\<close>

subsection \<open>Packets and the query loop\<close>

text \<open>
  The length a buffer descriptor claims lies within its bytes, and every item of the
  schedule list is linked once and is an allocated report descriptor.
\<close>

definition buffer_ok :: "NetworkBufferDescriptor_t \<Rightarrow> bool" where
  "buffer_ok b \<longleftrightarrow> xDataLength b \<le> length (pucEthernetBuffer b)"

definition registry_ok :: "igmp_state \<Rightarrow> bool" where
  "registry_ok s \<longleftrightarrow>
     distinct (xIGMP_ScheduleList s) \<and> (\<forall>p\<in>set (xIGMP_ScheduleList s). reportHeap s p \<noteq> None)"

text \<open>
  An inbound frame that \<open>eProcessIGMPPacket\<close> treats as a general query with
  \<open>ucMaxResponseTime = m\<close>.
\<close>

definition general_query :: "NetworkBufferDescriptor_t \<Rightarrow> u8 \<Rightarrow> bool" where
  "general_query b m \<longleftrightarrow>
     sizeof_IGMPPacket_t \<le> xDataLength b
     \<and> read_u8 b offset_ucTypeOfMessage = Some ipIGMP_MEMBERSHIP_QUERY
     \<and> read_u32 b offset_uiGroupAddress = Some 0
     \<and> read_u8 b offset_ucMaxResponseTime = Some m"

text \<open>
  The condition under which the query loop overwrites a countdown, the value one draw
  yields (\<open>i\<close> is the index of the call to the random source, \<open>c\<close> the fallback counter),
  and what the loop over the items \<open>ps\<close> leaves behind.
\<close>

definition must_reschedule :: "u8 \<Rightarrow> IGMPReportDesc_t \<Rightarrow> bool" where
  "must_reschedule m d \<longleftrightarrow> ucCountDown d \<le> 0 \<or> ucCountDown d \<ge> m"

definition drawn_delay :: "env \<Rightarrow> u8 \<Rightarrow> nat \<Rightarrow> u32 \<Rightarrow> u8 option" where
  "drawn_delay e m i c =
     (case xApplicationGetRandomNumber e i of
        None \<Rightarrow> Some (ucast c)
      | Some uiRandom \<Rightarrow> map_option ucast (masked_random m uiRandom))"

definition sched_post :: "env \<Rightarrow> u8 \<Rightarrow> ptr list \<Rightarrow> igmp_state \<Rightarrow> igmp_state \<Rightarrow> bool" where
  "sched_post e m ps s s' \<longleftrightarrow>
     s' = s\<lparr>reportHeap := reportHeap s', rndCalls := rndCalls s'\<rparr>
     \<and> rndCalls s \<le> rndCalls s'
     \<and> (\<forall>p. p \<notin> set ps \<longrightarrow> reportHeap s' p = reportHeap s p)
     \<and> (\<forall>p\<in>set ps. \<forall>d. reportHeap s p = Some d \<longrightarrow>
           (if must_reschedule m d
            then \<exists>i k v. rndCalls s \<le> i \<and> i < rndCalls s' \<and> drawn_delay e m i k = Some v
                   \<and> 1 \<le> unat v \<and> unat v \<le> unat (ucMaxRespTime m)
                   \<and> reportHeap s' p = Some (d\<lparr>ucCountDown := v\<rparr>)
            else reportHeap s' p = Some d))"

text \<open>
  Which call of the random source and which value of the fallback counter the query loop
  uses for an item \<open>p\<close> of the list \<open>ps\<close>. The loop makes one call for each item it
  reschedules, in list order, so the call for \<open>p\<close> is the first call of the loop plus the
  number of rescheduled items before \<open>p\<close>. \<open>uiNonRandomCounter\<close> starts at 1 and advances
  once for every call that failed, returning to 1 when it would pass the window; after \<open>f\<close>
  failed calls it is \<open>1 + f mod ucMaxRespTime\<close>. \<open>query_delay\<close> is the delay this
  determines for the item \<open>p\<close> of the schedule list of \<open>s\<close>.
\<close>

definition rescheduled :: "u8 \<Rightarrow> (ptr \<rightharpoonup> IGMPReportDesc_t) \<Rightarrow> ptr list \<Rightarrow> ptr list" where
  "rescheduled m h ps =
     filter (\<lambda>q. case h q of None \<Rightarrow> False | Some d \<Rightarrow> must_reschedule m d) ps"

definition draws_before :: "u8 \<Rightarrow> (ptr \<rightharpoonup> IGMPReportDesc_t) \<Rightarrow> ptr list \<Rightarrow> ptr \<Rightarrow> nat" where
  "draws_before m h ps p = length (rescheduled m h (takeWhile (\<lambda>q. q \<noteq> p) ps))"

definition failed_draws :: "env \<Rightarrow> nat \<Rightarrow> nat \<Rightarrow> nat" where
  "failed_draws e n k =
     length (filter (\<lambda>i. xApplicationGetRandomNumber e i = None) [n ..< n + k])"

definition fallback_counter :: "u8 \<Rightarrow> nat \<Rightarrow> u32" where
  "fallback_counter m f = of_nat (1 + f mod unat (ucMaxRespTime m))"

definition query_delay :: "env \<Rightarrow> u8 \<Rightarrow> igmp_state \<Rightarrow> ptr \<Rightarrow> u8 option" where
  "query_delay e m s p =
     (let k = draws_before m (reportHeap s) (xIGMP_ScheduleList s) p
      in drawn_delay e m (rndCalls s + k) (fallback_counter m (failed_draws e (rndCalls s) k)))"

text \<open>
  The mask as the specification words it: the smallest number of the form \<open>2^k - 1\<close> that
  is at least the window.
\<close>

definition spec_smallest_mask :: "nat \<Rightarrow> nat" where
  "spec_smallest_mask w = hd (filter (\<lambda>x. w \<le> x) (map (\<lambda>k. 2 ^ k - 1) [0..<9]))"

text \<open>
  The memory before \<open>vIGMP_Init\<close> runs: nothing is allocated, no socket has joined a
  group, no external call has been made.
\<close>

definition boot :: igmp_state where
  "boot = \<lparr>xIGMP_ScheduleList = [], reportHeap = Map.empty, groupHeap = Map.empty,
           xMulticastGroupsList = (\<lambda>k. []), uiNumIGMP_Queries = 0, uiNumIGMP_Reports = 0,
           rndCalls = 0, bufCalls = 0, events = []\<rparr>"

text \<open>
  Concrete inputs on which the theorems are evaluated: an environment whose random source
  always answers 5 and whose buffer pool never fails, a report descriptor with countdown
  \<open>c\<close>, a registry holding that one descriptor at address 1, and a 42-byte general query
  with max response time \<open>m\<close>.
\<close>

definition env0 :: env where
  "env0 = \<lparr>xApplicationGetRandomNumber = (\<lambda>n. Some 5),
           pxGetNetworkBufferWithDescriptor = (\<lambda>n. True),
           vSetMultiCastIPv4MacAddress = (\<lambda>a. [1, 0, 0x5E, 0, 0, 1]),
           ipLOCAL_MAC_ADDRESS = [2, 0, 0, 0, 0, 1],
           ipLOCAL_IP_ADDRESS = 0x0A000001,
           eSocketOptAddMembership = 1,
           eSocketOptDropMembership = 2,
           ipconfigUSE_LLMNR = False,
           ipLLMNR_IP_ADDR = 0xE00000FC,
           ipIGMP_IP_ADDR = 0xE0000001\<rparr>"

definition report0 :: "u8 \<Rightarrow> IGMPReportDesc_t" where
  "report0 c = \<lparr>IGMPReportDesc_t.mreq = \<lparr>imr_multiaddr = 0xE0000105, imr_interface = 0\<rparr>,
               xNumSockets = 1, ucCountDown = c\<rparr>"

definition one_report :: "u8 \<Rightarrow> igmp_state" where
  "one_report c = boot\<lparr>xIGMP_ScheduleList := [1], reportHeap := [1 \<mapsto> report0 c]\<rparr>"

definition query_frame :: "u8 \<Rightarrow> NetworkBufferDescriptor_t" where
  "query_frame m = \<lparr>pucEthernetBuffer = replicate 34 0 @ [0x11, m, 0, 0, 0, 0, 0, 0],
                    xDataLength = 42\<rparr>"

text \<open>
  An environment whose random source always fails, and a registry of four descriptors
  with countdowns 0, 2, 3 and 0.
\<close>

definition env_no_random :: env where
  "env_no_random = env0\<lparr>xApplicationGetRandomNumber := (\<lambda>n. None)\<rparr>"

definition four_reports :: igmp_state where
  "four_reports =
     boot\<lparr>xIGMP_ScheduleList := [1, 2, 3, 4],
          reportHeap := [1 \<mapsto> report0 0, 2 \<mapsto> report0 2, 3 \<mapsto> report0 3, 4 \<mapsto> report0 0]\<rparr>"

subsection \<open>The tick handler\<close>

text \<open>
  What one tick does to a descriptor, the group addresses of the entries that are due
  (countdown 1) in list order, and the frames sent for them: the \<open>n\<close>-th request to the
  buffer pool decides whether the frame of a due entry goes out.
\<close>

definition tick_desc :: "IGMPReportDesc_t \<Rightarrow> IGMPReportDesc_t" where
  "tick_desc d = (if 0 < ucCountDown d then d\<lparr>ucCountDown := ucCountDown d - 1\<rparr> else d)"

definition due_reports :: "(ptr \<rightharpoonup> IGMPReportDesc_t) \<Rightarrow> ptr list \<Rightarrow> u32 list" where
  "due_reports h ps =
     concat (map (\<lambda>p. case h p of
                          Some d \<Rightarrow> if ucCountDown d = 1 then [report_addr d] else []
                        | None \<Rightarrow> []) ps)"

fun sent_reports :: "env \<Rightarrow> nat \<Rightarrow> u32 list \<Rightarrow> event list" where
  "sent_reports e n [] = []"
| "sent_reports e n (a # as) =
     (if pxGetNetworkBufferWithDescriptor e n
      then [NetworkInterfaceOutputToPortX (igmp_frame e ipIGMP_MEMBERSHIP_REPORT_V2 0 a a)]
      else []) @ sent_reports e (Suc n) as"

text \<open>
  What the loop of \<open>vHandleIGMP_Event\<close> over the items \<open>ps\<close> leaves behind.
\<close>

definition tick_post :: "env \<Rightarrow> ptr list \<Rightarrow> igmp_state \<Rightarrow> igmp_state \<Rightarrow> bool" where
  "tick_post e ps s s' \<longleftrightarrow>
     s' = s\<lparr>reportHeap := reportHeap s', bufCalls := bufCalls s', events := events s'\<rparr>
     \<and> (\<forall>p. p \<notin> set ps \<longrightarrow> reportHeap s' p = reportHeap s p)
     \<and> (\<forall>p\<in>set ps. \<forall>d. reportHeap s p = Some d \<longrightarrow> reportHeap s' p = Some (tick_desc d))
     \<and> bufCalls s' = bufCalls s + length (due_reports (reportHeap s) ps)
     \<and> events s' = events s @ sent_reports e (bufCalls s) (due_reports (reportHeap s) ps)"

text \<open>
  An environment whose buffer pool is exhausted.
\<close>

definition env_no_buffer :: env where
  "env_no_buffer = env0\<lparr>pxGetNetworkBufferWithDescriptor := (\<lambda>n. False)\<rparr>"

subsection \<open>The report registry\<close>

text \<open>
  The first item of the schedule list (of a socket's group list) whose descriptor has the
  group address \<open>a\<close>: what the search loops find when every item they visit is allocated.
\<close>

definition find_report :: "igmp_state \<Rightarrow> u32 \<Rightarrow> ptr option" where
  "find_report s a =
     List.find (\<lambda>p. map_option report_addr (reportHeap s p) = Some a) (xIGMP_ScheduleList s)"

definition find_group :: "igmp_state \<Rightarrow> ptr \<Rightarrow> u32 \<Rightarrow> ptr option" where
  "find_group s k a =
     List.find (\<lambda>p. map_option group_addr (groupHeap s p) = Some a) (xMulticastGroupsList s k)"

text \<open>
  A report descriptor as the socket layer passes it in.
\<close>

definition candidate :: IGMPReportDesc_t where
  "candidate = \<lparr>IGMPReportDesc_t.mreq = \<lparr>imr_multiaddr = 0xE0000105, imr_interface = 0\<rparr>,
               xNumSockets = 0, ucCountDown = 0\<rparr>"

subsection \<open>Invariants of the lists\<close>

text \<open>
  The schedule list \<open>ps\<close> over the report descriptors \<open>h\<close>: every item is linked once and
  allocated, and no two items have the same group address.
\<close>

definition reg_inv :: "ptr list \<Rightarrow> (ptr \<rightharpoonup> IGMPReportDesc_t) \<Rightarrow> bool" where
  "reg_inv ps h \<longleftrightarrow>
     distinct ps \<and> (\<forall>p\<in>set ps. h p \<noteq> None)
     \<and> (\<forall>p\<in>set ps. \<forall>q\<in>set ps.
           map_option report_addr (h p) = map_option report_addr (h q) \<longrightarrow> p = q)"

text \<open>
  The sockets' group lists \<open>L\<close> over the group descriptors \<open>h\<close>: in each socket's list every
  item is linked once, is allocated and names that socket as its \<open>pxSocket\<close>, and no two
  items of one list have the same group address.
\<close>

definition sock_inv :: "(ptr \<Rightarrow> ptr list) \<Rightarrow> (ptr \<rightharpoonup> MCastGroupDesc_t) \<Rightarrow> bool" where
  "sock_inv L h \<longleftrightarrow>
     (\<forall>k. distinct (L k)
          \<and> (\<forall>g\<in>set (L k). \<exists>gd. h g = Some gd \<and> pxSocket gd = k)
          \<and> (\<forall>g\<in>set (L k). \<forall>g'\<in>set (L k).
                map_option group_addr (h g) = map_option group_addr (h g') \<longrightarrow> g = g'))"

definition state_ok :: "igmp_state \<Rightarrow> bool" where
  "state_ok s \<longleftrightarrow>
     reg_inv (xIGMP_ScheduleList s) (reportHeap s)
     \<and> sock_inv (xMulticastGroupsList s) (groupHeap s)"

subsection \<open>Requests to vModifyMulticastMembership\<close>

text \<open>
  The two socket-option codes are different values of their enumeration.
\<close>

definition env_ok :: "env \<Rightarrow> bool" where
  "env_ok e \<longleftrightarrow> eSocketOptAddMembership e \<noteq> eSocketOptDropMembership e"

text \<open>
  A request descriptor as the socket layer hands it over: allocated, not linked into its
  socket's list, its report candidate (if any) allocated and not linked into the schedule
  list. And a descriptor that is linked into its socket's list, which is what
  \<open>vSocketClose\<close> passes with a drop request.
\<close>

definition caller_owned :: "ptr \<Rightarrow> igmp_state \<Rightarrow> bool" where
  "caller_owned g s \<longleftrightarrow>
     (\<exists>gd. groupHeap s g = Some gd
        \<and> g \<notin> set (xMulticastGroupsList s (pxSocket gd))
        \<and> (pxIGMPReportDesc gd = 0
            \<or> (reportHeap s (pxIGMPReportDesc gd) \<noteq> None
                \<and> pxIGMPReportDesc gd \<notin> set (xIGMP_ScheduleList s))))"

definition linked :: "ptr \<Rightarrow> igmp_state \<Rightarrow> bool" where
  "linked g s \<longleftrightarrow>
     (\<exists>gd. groupHeap s g = Some gd \<and> g \<in> set (xMulticastGroupsList s (pxSocket gd)))"

subsection \<open>Reachable states\<close>

text \<open>
  The states the module reaches: \<open>vIGMP_Init\<close> at start-up, then any sequence of
  allocations by the socket layer (\<open>pvPortMalloc\<close> of a group or report descriptor, with
  any contents), membership requests on a caller-owned descriptor (join and leave, with any
  action code), drop requests on a linked descriptor (socket close), timer ticks and
  inbound packets.
\<close>

inductive reachable :: "env \<Rightarrow> igmp_state \<Rightarrow> bool" for e :: env where
  init: "vIGMP_Init e pxIRD boot = Some s \<Longrightarrow> reachable e s"
| malloc_group:
    "reachable e s \<Longrightarrow> groupHeap s g = None \<Longrightarrow> g \<noteq> 0 \<Longrightarrow>
     reachable e (s\<lparr>groupHeap := (groupHeap s)(g \<mapsto> gd)\<rparr>)"
| malloc_report:
    "reachable e s \<Longrightarrow> reportHeap s r = None \<Longrightarrow> r \<noteq> 0 \<Longrightarrow>
     reachable e (s\<lparr>reportHeap := (reportHeap s)(r \<mapsto> rd)\<rparr>)"
| modify:
    "reachable e s \<Longrightarrow> caller_owned g s \<Longrightarrow>
     vModifyMulticastMembership e g bAction s = Some s' \<Longrightarrow> reachable e s'"
| close:
    "reachable e s \<Longrightarrow> linked g s \<Longrightarrow>
     vModifyMulticastMembership e g (eSocketOptDropMembership e) s = Some s' \<Longrightarrow> reachable e s'"
| tick: "reachable e s \<Longrightarrow> vHandleIGMP_Event e s = Some s' \<Longrightarrow> reachable e s'"
| packet: "reachable e s \<Longrightarrow> eProcessIGMPPacket e b s = Some (r, s') \<Longrightarrow> reachable e s'"

subsection \<open>Joining and leaving a group\<close>

text \<open>
  Modelled from the spec: the socket layer that originates the add and drop membership
  requests is not in this file. A join allocates the group descriptor \<open>g\<close> (for socket \<open>k\<close>)
  and, unless \<open>r\<close> is \<open>NULL\<close>, a report candidate \<open>r\<close>, and passes them with
  \<open>eSocketOptAddMembership\<close> (the candidate is optional: \<open>vModifyMulticastMembership\<close> tests
  \<open>pxIGMPReportDesc\<close> before it uses it); a leave allocates a group descriptor without a
  candidate and passes it with \<open>eSocketOptDropMembership\<close>.
\<close>

definition join :: "env \<Rightarrow> freertos_ip_mreq \<Rightarrow> ptr \<Rightarrow> ptr \<Rightarrow> ptr \<Rightarrow> igmp_state \<Rightarrow> igmp_state option" where
  "join e m k g r s =
     vModifyMulticastMembership e g (eSocketOptAddMembership e)
       (s\<lparr>groupHeap := (groupHeap s)
              (g \<mapsto> \<lparr>MCastGroupDesc_t.mreq = m, pxSocket = k, pxIGMPReportDesc = r\<rparr>),
          reportHeap :=
            (if r = 0 then reportHeap s
             else (reportHeap s)
                    (r \<mapsto> \<lparr>IGMPReportDesc_t.mreq = m, xNumSockets = 0, ucCountDown = 0\<rparr>))\<rparr>)"

definition leave :: "env \<Rightarrow> freertos_ip_mreq \<Rightarrow> ptr \<Rightarrow> ptr \<Rightarrow> igmp_state \<Rightarrow> igmp_state option" where
  "leave e m k g s =
     vModifyMulticastMembership e g (eSocketOptDropMembership e)
       (s\<lparr>groupHeap := (groupHeap s)
              (g \<mapsto> \<lparr>MCastGroupDesc_t.mreq = m, pxSocket = k, pxIGMPReportDesc = 0\<rparr>)\<rparr>)"

text \<open>
  A sequence of joins (socket, group descriptor, report candidate) and of leaves (socket,
  group descriptor) of one group.
\<close>

fun join_all :: "env \<Rightarrow> freertos_ip_mreq \<Rightarrow> (ptr \<times> ptr \<times> ptr) list \<Rightarrow> igmp_state \<Rightarrow> igmp_state option" where
  "join_all e m [] s = Some s"
| "join_all e m ((k, g, r) # js) s =
     (case join e m k g r s of None \<Rightarrow> None | Some s' \<Rightarrow> join_all e m js s')"

fun leave_all :: "env \<Rightarrow> freertos_ip_mreq \<Rightarrow> (ptr \<times> ptr) list \<Rightarrow> igmp_state \<Rightarrow> igmp_state option" where
  "leave_all e m [] s = Some s"
| "leave_all e m ((k, g) # ls) s =
     (case leave e m k g s of None \<Rightarrow> None | Some s' \<Rightarrow> leave_all e m ls s')"

text \<open>
  The items of the schedule list for group \<open>a\<close>, whether socket \<open>k\<close> has a membership
  of group \<open>a\<close>, and the socket count of group \<open>a\<close> in the registry, read as the signed
  number it is (0: no entry).
\<close>

definition entries_for :: "igmp_state \<Rightarrow> u32 \<Rightarrow> ptr list" where
  "entries_for s a =
     filter (\<lambda>p. map_option report_addr (reportHeap s p) = Some a) (xIGMP_ScheduleList s)"

definition member :: "igmp_state \<Rightarrow> ptr \<Rightarrow> u32 \<Rightarrow> bool" where
  "member s k a \<longleftrightarrow>
     (\<exists>g\<in>set (xMulticastGroupsList s k). map_option group_addr (groupHeap s g) = Some a)"

definition count_is :: "igmp_state \<Rightarrow> u32 \<Rightarrow> int \<Rightarrow> bool" where
  "count_is s a c \<longleftrightarrow>
     (if c = 0 then entries_for s a = []
      else \<exists>p d. entries_for s a = [p] \<and> reportHeap s p = Some d \<and> sint (xNumSockets d) = c)"

subsection \<open>Concrete inputs for joins and leaves\<close>

text \<open>
  A group, the MAC address \<open>env0\<close> maps it to, the state after \<open>vIGMP_Init\<close>, a group
  descriptor, and the state after sockets 1 and 2 have joined the group.
\<close>

definition mreq0 :: freertos_ip_mreq where
  "mreq0 = \<lparr>imr_multiaddr = 0xE0000105, imr_interface = 0\<rparr>"

definition mac0 :: MACAddress_t where
  "mac0 = [1, 0, 0x5E, 0, 0, 1]"

definition started :: igmp_state where
  "started = boot\<lparr>events := [EMAC_AddMulticastAddress mac0]\<rparr>"

definition group0 :: "ptr \<Rightarrow> ptr \<Rightarrow> MCastGroupDesc_t" where
  "group0 k r = \<lparr>MCastGroupDesc_t.mreq = mreq0, pxSocket = k, pxIGMPReportDesc = r\<rparr>"

definition two_joined :: igmp_state where
  "two_joined =
     \<lparr>xIGMP_ScheduleList = [20],
      reportHeap = [20 \<mapsto> \<lparr>IGMPReportDesc_t.mreq = mreq0, xNumSockets = 2, ucCountDown = 7\<rparr>],
      groupHeap = [10 \<mapsto> group0 1 20, 11 \<mapsto> group0 2 0],
      xMulticastGroupsList = (\<lambda>k. [])(1 := [10], 2 := [11]),
      uiNumIGMP_Queries = 0, uiNumIGMP_Reports = 0, rndCalls = 1, bufCalls = 0,
      events = [EMAC_AddMulticastAddress mac0, EMAC_AddMulticastAddress mac0,
                EMAC_AddMulticastAddress mac0]\<rparr>"

text \<open>
  What is observed of a state in the evaluations: the group address and the socket count
  (as a signed number) of every item of the schedule list, and the group addresses of the
  memberships of socket \<open>k\<close>. An unallocated item shows as \<open>(0, 0)\<close> or \<open>0\<close>; the states
  evaluated have none.
\<close>

definition registry_counts :: "igmp_state \<Rightarrow> (u32 \<times> int) list" where
  "registry_counts s =
     map (\<lambda>p. case reportHeap s p of
                None \<Rightarrow> (0, 0)
              | Some d \<Rightarrow> (report_addr d, sint (xNumSockets d)))
       (xIGMP_ScheduleList s)"

definition socket_groups :: "ptr \<Rightarrow> igmp_state \<Rightarrow> u32 list" where
  "socket_groups k s =
     map (\<lambda>g. case groupHeap s g of None \<Rightarrow> 0 | Some gd \<Rightarrow> group_addr gd)
       (xMulticastGroupsList s k)"

section \<open>The random delay and the query loop\<close>

lemma sizes [simp]: "sizeof_IGMPPacket_t = 42" "offset_ucTypeOfMessage = 34"
  "offset_ucMaxResponseTime = 35" "offset_uiGroupAddress = 38"
  by (simp_all add: sizeof_IGMPPacket_t_def offset_ucTypeOfMessage_def offset_ucMaxResponseTime_def
      offset_uiGroupAddress_def ipSIZE_OF_ETH_HEADER_def ipSIZE_OF_IPv4_HEADER_def ipSIZE_OF_IGMP_HEADER_def)

lemma unat_u8_lt: "unat (x::u8) < 256"
proof -
  have "unat x < 2 ^ LENGTH(8)" by (rule unsigned_less)
  then show ?thesis by simp
qed

lemma unat_ucast_u8_u32: "unat (ucast (x::u8) :: u32) = unat x"
proof -
  have "unat x < 2 ^ 32" using unat_u8_lt[of x] by simp
  then show ?thesis by (simp add: unsigned_ucast_eq take_bit_nat_eq_self)
qed

lemma unat_ucast_u32_u8: "unat (x::u32) < 256 \<Longrightarrow> unat (ucast x :: u8) = unat x"
  by (simp add: unsigned_ucast_eq take_bit_eq_mod)

lemma ucMaxRespTime_unat: "unat (ucMaxRespTime m) = max 2 (unat m) - 1"
proof -
  have "unat (max 2 m) = max 2 (unat m)"
    by (simp add: max_def word_le_nat_alt)
  moreover have "1 \<le> max 2 m"
    by (simp add: max_def word_le_nat_alt)
  ultimately show ?thesis
    by (simp add: ucMaxRespTime_def unat_sub)
qed

lemma ucMaxRespTime_lt: "unat (ucMaxRespTime m) < 255"
proof -
  have "unat m < 256" by (rule unat_u8_lt)
  then show ?thesis by (simp add: ucMaxRespTime_unat)
qed

lemma reduce_random_bound:
  "0 < w \<Longrightarrow> 0 < r \<Longrightarrow> \<exists>r'. reduce_random r w = Some r' \<and> 0 < r' \<and> r' \<le> w"
proof (induction "unat r" arbitrary: r rule: less_induct)
  case less
  show ?case
  proof (cases "w < r")
    case True
    then have le: "w \<le> r" by simp
    have "unat (r - w) < unat r"
      using less.prems True by (simp add: unat_sub le word_less_nat_alt unat_gt_0)
    moreover have "0 < r - w" using True
      by (simp add: word_greater_zero_iff)
    ultimately obtain r' where "reduce_random (r - w) w = Some r'" "0 < r'" "r' \<le> w"
      using less.hyps less.prems(1) by blast
    then show ?thesis using True by (subst reduce_random.simps) simp
  next
    case False
    then show ?thesis using less.prems by (subst reduce_random.simps) simp
  qed
qed

lemma masked_random_bound:
  "\<exists>r. masked_random m x = Some r \<and> 1 \<le> unat r \<and> unat r \<le> unat (ucMaxRespTime m)"
proof -
  let ?w = "ucast (ucMaxRespTime m) :: u32"
  have w: "unat ?w = unat (ucMaxRespTime m)" by (rule unat_ucast_u8_u32)
  have "1 \<le> unat (ucMaxRespTime m)" by (simp add: ucMaxRespTime_unat)
  then have "0 < ?w" using w by (simp add: word_less_nat_alt)
  moreover have "0 < (if x AND RandMask (ucMaxRespTime m) = 0 then 1 else x AND RandMask (ucMaxRespTime m))"
    by (simp add: word_greater_zero_iff)
  ultimately obtain r' where "reduce_random (if x AND RandMask (ucMaxRespTime m) = 0 then 1 else x AND RandMask (ucMaxRespTime m)) ?w = Some r'" "0 < r'" "r' \<le> ?w"
    using reduce_random_bound by blast
  then show ?thesis using w
    by (auto simp: masked_random_def Let_def word_le_nat_alt word_less_nat_alt)
qed

lemma counter_step:
  assumes "1 \<le> unat (c::u32)" "unat c \<le> unat (ucMaxRespTime m)"
  shows "1 \<le> unat (if c + 1 > ucast (ucMaxRespTime m) then 1 else c + 1)
       \<and> unat (if c + 1 > ucast (ucMaxRespTime m) then 1 else c + 1) \<le> unat (ucMaxRespTime m)"
proof -
  have lt: "unat c < 255" using assms(2) ucMaxRespTime_lt[of m] by simp
  have "unat (c + 1) = unat c + 1"
    using lt by (simp add: unat_word_ariths)
  then show ?thesis using assms
    by (simp add: word_less_nat_alt unat_ucast_u8_u32)
qed

lemma schedule_step:
  assumes "reportHeap s p = Some d" "1 \<le> unat c" "unat c \<le> unat (ucMaxRespTime m)"
  shows "if must_reschedule m d
     then \<exists>v c1. drawn_delay e m (rndCalls s) c = Some v \<and> 1 \<le> unat v
            \<and> unat v \<le> unat (ucMaxRespTime m) \<and> 1 \<le> unat c1 \<and> unat c1 \<le> unat (ucMaxRespTime m)
            \<and> schedule_reports e m (p # ps) c s =
                schedule_reports e m ps c1
                  (s\<lparr>reportHeap := (reportHeap s)(p \<mapsto> d\<lparr>ucCountDown := v\<rparr>),
                     rndCalls := Suc (rndCalls s)\<rparr>)
     else schedule_reports e m (p # ps) c s = schedule_reports e m ps c s"
proof (cases "must_reschedule m d")
  case False
  then show ?thesis using assms(1) by (simp add: must_reschedule_def)
next
  case True
  show ?thesis
  proof (cases "xApplicationGetRandomNumber e (rndCalls s)")
    case None
    have "unat c < 256" using assms(3) ucMaxRespTime_lt[of m] by simp
    then have "unat (ucast c :: u8) = unat c" by (rule unat_ucast_u32_u8)
    then show ?thesis using True None assms counter_step[OF assms(2,3)]
      by (auto simp: must_reschedule_def drawn_delay_def)
  next
    case (Some x)
    obtain r where r: "masked_random m x = Some r" "1 \<le> unat r" "unat r \<le> unat (ucMaxRespTime m)"
      using masked_random_bound by blast
    have "unat r < 256" using r(3) ucMaxRespTime_lt[of m] by simp
    then have "unat (ucast r :: u8) = unat r" by (rule unat_ucast_u32_u8)
    then show ?thesis using True Some assms r
      by (auto simp: must_reschedule_def drawn_delay_def)
  qed
qed

lemma schedule_reports_effect:
  assumes "distinct ps" "\<forall>p\<in>set ps. reportHeap s p \<noteq> None"
    "1 \<le> unat c" "unat c \<le> unat (ucMaxRespTime m)"
  shows "\<exists>s'. schedule_reports e m ps c s = Some s' \<and> sched_post e m ps s s'"
  using assms
proof (induction ps arbitrary: c s)
  case Nil
  then show ?case by (simp add: sched_post_def)
next
  case (Cons p ps)
  from Cons.prems obtain d where d: "reportHeap s p = Some d" by auto
  have pn: "p \<notin> set ps" and dist: "distinct ps" using Cons.prems(1) by auto
  show ?case
  proof (cases "must_reschedule m d")
    case False
    have eq: "schedule_reports e m (p # ps) c s = schedule_reports e m ps c s"
      using schedule_step[OF d Cons.prems(3,4), of e ps] False by simp
    obtain s' where s': "schedule_reports e m ps c s = Some s'" "sched_post e m ps s s'"
      using Cons.IH[OF dist _ Cons.prems(3,4), of s] Cons.prems(2) by auto
    have "sched_post e m (p # ps) s s'"
      using s'(2) pn d False unfolding sched_post_def by auto
    then show ?thesis using eq s'(1) by simp
  next
    case True
    obtain v c1 where v: "drawn_delay e m (rndCalls s) c = Some v" "1 \<le> unat v"
        "unat v \<le> unat (ucMaxRespTime m)" "1 \<le> unat c1" "unat c1 \<le> unat (ucMaxRespTime m)"
      and eq: "schedule_reports e m (p # ps) c s =
                schedule_reports e m ps c1
                  (s\<lparr>reportHeap := (reportHeap s)(p \<mapsto> d\<lparr>ucCountDown := v\<rparr>),
                     rndCalls := Suc (rndCalls s)\<rparr>)"
      using schedule_step[OF d Cons.prems(3,4), of e ps] True by auto
    let ?s1 = "s\<lparr>reportHeap := (reportHeap s)(p \<mapsto> d\<lparr>ucCountDown := v\<rparr>),
                     rndCalls := Suc (rndCalls s)\<rparr>"
    have al: "\<forall>q\<in>set ps. reportHeap ?s1 q \<noteq> None" using Cons.prems(2) by simp
    obtain s' where s': "schedule_reports e m ps c1 ?s1 = Some s'" "sched_post e m ps ?s1 s'"
      using Cons.IH[OF dist al v(4,5)] by auto
    have a1: "s' = s\<lparr>reportHeap := reportHeap s', rndCalls := rndCalls s'\<rparr>"
    proof -
      have "s' = ?s1\<lparr>reportHeap := reportHeap s', rndCalls := rndCalls s'\<rparr>"
        using s'(2) unfolding sched_post_def by blast
      also have "\<dots> = s\<lparr>reportHeap := reportHeap s', rndCalls := rndCalls s'\<rparr>" by simp
      finally show ?thesis .
    qed
    have a2: "Suc (rndCalls s) \<le> rndCalls s'" using s'(2) unfolding sched_post_def by simp
    have a3: "\<forall>q. q \<notin> set (p # ps) \<longrightarrow> reportHeap s' q = reportHeap s q"
      using s'(2) unfolding sched_post_def by simp
    have a4: "reportHeap s' p = Some (d\<lparr>ucCountDown := v\<rparr>)"
      using s'(2) pn unfolding sched_post_def by simp
    have a5: "\<forall>q\<in>set ps. \<forall>d'. reportHeap s q = Some d' \<longrightarrow>
           (if must_reschedule m d'
            then \<exists>i k v. rndCalls s \<le> i \<and> i < rndCalls s' \<and> drawn_delay e m i k = Some v
                   \<and> 1 \<le> unat v \<and> unat v \<le> unat (ucMaxRespTime m)
                   \<and> reportHeap s' q = Some (d'\<lparr>ucCountDown := v\<rparr>)
            else reportHeap s' q = Some d')"
    proof (intro ballI allI impI)
      fix q d' assume q: "q \<in> set ps" and qd: "reportHeap s q = Some d'"
      have "q \<noteq> p" using q pn by auto
      then have qd1: "reportHeap ?s1 q = Some d'" using qd by simp
      have *: "if must_reschedule m d'
            then \<exists>i k v. rndCalls ?s1 \<le> i \<and> i < rndCalls s' \<and> drawn_delay e m i k = Some v
                   \<and> 1 \<le> unat v \<and> unat v \<le> unat (ucMaxRespTime m)
                   \<and> reportHeap s' q = Some (d'\<lparr>ucCountDown := v\<rparr>)
            else reportHeap s' q = Some d'"
        using s'(2) q qd1 unfolding sched_post_def by blast
      show "if must_reschedule m d'
            then \<exists>i k v. rndCalls s \<le> i \<and> i < rndCalls s' \<and> drawn_delay e m i k = Some v
                   \<and> 1 \<le> unat v \<and> unat v \<le> unat (ucMaxRespTime m)
                   \<and> reportHeap s' q = Some (d'\<lparr>ucCountDown := v\<rparr>)
            else reportHeap s' q = Some d'"
      proof (cases "must_reschedule m d'")
        case False then show ?thesis using * by simp
      next
        case True
        with * obtain i k v' where "rndCalls ?s1 \<le> i" "i < rndCalls s'" "drawn_delay e m i k = Some v'"
             "1 \<le> unat v'" "unat v' \<le> unat (ucMaxRespTime m)"
             "reportHeap s' q = Some (d'\<lparr>ucCountDown := v'\<rparr>)" by auto
        then show ?thesis using True by (auto intro!: exI[of _ i] exI[of _ k])
      qed
    qed
    have a6: "\<exists>i k v. rndCalls s \<le> i \<and> i < rndCalls s' \<and> drawn_delay e m i k = Some v
                   \<and> 1 \<le> unat v \<and> unat v \<le> unat (ucMaxRespTime m)
                   \<and> reportHeap s' p = Some (d\<lparr>ucCountDown := v\<rparr>)"
      using v a2 a4 by (auto intro!: exI[of _ "rndCalls s"] exI[of _ c])
    have "sched_post e m (p # ps) s s'"
      unfolding sched_post_def
    proof (intro conjI)
      show "s' = s\<lparr>reportHeap := reportHeap s', rndCalls := rndCalls s'\<rparr>" by (rule a1)
      show "rndCalls s \<le> rndCalls s'" using a2 by simp
      show "\<forall>q. q \<notin> set (p # ps) \<longrightarrow> reportHeap s' q = reportHeap s q" by (rule a3)
      show "\<forall>q\<in>set (p # ps). \<forall>d'. reportHeap s q = Some d' \<longrightarrow>
           (if must_reschedule m d'
            then \<exists>i k v. rndCalls s \<le> i \<and> i < rndCalls s' \<and> drawn_delay e m i k = Some v
                   \<and> 1 \<le> unat v \<and> unat v \<le> unat (ucMaxRespTime m)
                   \<and> reportHeap s' q = Some (d'\<lparr>ucCountDown := v\<rparr>)
            else reportHeap s' q = Some d')"
        using a5 a6 d True by auto
    qed
    then show ?thesis using eq s'(1) by simp
  qed
qed

lemma general_query_frame: "general_query (query_frame m) m"
  by (simp add: general_query_def query_frame_def read_u8_def read_u32_def nth_append
      ipIGMP_MEMBERSHIP_QUERY_def)

lemma registry_ok_one_report: "registry_ok (one_report c)"
  by (simp add: registry_ok_def one_report_def boot_def)

lemma read_u8_ok: "buffer_ok b \<Longrightarrow> off < xDataLength b \<Longrightarrow> \<exists>v. read_u8 b off = Some v"
  by (simp add: buffer_ok_def read_u8_def)

lemma read_u32_ok: "buffer_ok b \<Longrightarrow> off + 3 < xDataLength b \<Longrightarrow> \<exists>v. read_u32 b off = Some v"
  by (simp add: buffer_ok_def read_u8_def read_u32_def)

lemma eProcess_general_query:
  assumes "general_query b m" "registry_ok s"
  shows "\<exists>s'. eProcessIGMPPacket e b s = Some (eReleaseBuffer, s')
           \<and> sched_post e m (xIGMP_ScheduleList s) (s\<lparr>uiNumIGMP_Queries := uiNumIGMP_Queries s + 1\<rparr>) s'"
proof -
  let ?s1 = "s\<lparr>uiNumIGMP_Queries := uiNumIGMP_Queries s + 1\<rparr>"
  have "unat (1::u32) \<le> unat (ucMaxRespTime m)" by (simp add: ucMaxRespTime_unat)
  then obtain s' where s': "schedule_reports e m (xIGMP_ScheduleList s) 1 ?s1 = Some s'"
      "sched_post e m (xIGMP_ScheduleList s) ?s1 s'"
    using schedule_reports_effect[of "xIGMP_ScheduleList s" ?s1 1 m e] assms(2)
    by (auto simp: registry_ok_def)
  have "eProcessIGMPPacket e b s = Some (eReleaseBuffer, s')"
    using assms(1) s'(1) by (simp add: eProcessIGMPPacket_def general_query_def)
  then show ?thesis using s'(2) by simp
qed

lemma ucMaxRespTime_pos: "1 \<le> unat (ucMaxRespTime m)"
  by (simp add: ucMaxRespTime_unat)

lemma fallback_counter_unat: "unat (fallback_counter m f) = 1 + f mod unat (ucMaxRespTime m)"
proof -
  have "f mod unat (ucMaxRespTime m) < unat (ucMaxRespTime m)"
    using ucMaxRespTime_pos[of m] by (intro mod_less_divisor) simp
  then have "1 + f mod unat (ucMaxRespTime m) < 2 ^ LENGTH(32)"
    using ucMaxRespTime_lt[of m] by simp
  then have "take_bit LENGTH(32) (1 + f mod unat (ucMaxRespTime m)) = 1 + f mod unat (ucMaxRespTime m)"
    by (rule take_bit_nat_eq_self)
  then show ?thesis unfolding fallback_counter_def
    by (simp only: unsigned_of_nat of_nat_id)
qed

lemma fallback_counter_bound:
  "1 \<le> unat (fallback_counter m f) \<and> unat (fallback_counter m f) \<le> unat (ucMaxRespTime m)"
proof -
  have "f mod unat (ucMaxRespTime m) < unat (ucMaxRespTime m)"
    using ucMaxRespTime_pos[of m] by (intro mod_less_divisor) simp
  then show ?thesis by (simp add: fallback_counter_unat)
qed

lemma fallback_counter_step:
  "(if fallback_counter m f + 1 > ucast (ucMaxRespTime m) then 1 else fallback_counter m f + 1)
     = fallback_counter m (Suc f)"
proof -
  let ?w = "unat (ucMaxRespTime m)"
  let ?c = "fallback_counter m f"
  have b: "1 \<le> unat ?c" "unat ?c \<le> ?w" using fallback_counter_bound[of m f] by simp_all
  have lt: "unat ?c < 255" using b(2) ucMaxRespTime_lt[of m] by simp
  have u1: "unat (?c + 1) = unat ?c + 1" using lt by (simp add: unat_word_ariths)
  have gt: "(?c + 1 > ucast (ucMaxRespTime m)) \<longleftrightarrow> Suc (f mod ?w) = ?w"
    using b u1 by (auto simp: word_less_nat_alt unat_ucast_u8_u32 fallback_counter_unat)
  show ?thesis
  proof (cases "Suc (f mod ?w) = ?w")
    case True
    then have "Suc f mod ?w = 0" by (simp add: mod_Suc)
    then have "unat (fallback_counter m (Suc f)) = 1" by (simp add: fallback_counter_unat)
    then have "fallback_counter m (Suc f) = 1" by (simp add: word_unat_eq_iff)
    then show ?thesis using True gt by simp
  next
    case False
    then have "Suc f mod ?w = Suc (f mod ?w)" by (simp add: mod_Suc)
    then have "unat (fallback_counter m (Suc f)) = unat (?c + 1)"
      using u1 by (simp add: fallback_counter_unat)
    then have "fallback_counter m (Suc f) = ?c + 1" by (simp add: word_unat_eq_iff)
    then show ?thesis using False gt by simp
  qed
qed

lemma drawn_delay_bound:
  assumes "1 \<le> unat c" "unat c \<le> unat (ucMaxRespTime m)"
  shows "\<exists>v. drawn_delay e m i c = Some v \<and> 1 \<le> unat v \<and> unat v \<le> unat (ucMaxRespTime m)"
proof (cases "xApplicationGetRandomNumber e i")
  case None
  have "unat c < 256" using assms(2) ucMaxRespTime_lt[of m] by simp
  then have "unat (ucast c :: u8) = unat c" by (rule unat_ucast_u32_u8)
  then show ?thesis using None assms by (simp add: drawn_delay_def)
next
  case (Some x)
  obtain r where r: "masked_random m x = Some r" "1 \<le> unat r" "unat r \<le> unat (ucMaxRespTime m)"
    using masked_random_bound by blast
  have "unat r < 256" using r(3) ucMaxRespTime_lt[of m] by simp
  then have "unat (ucast r :: u8) = unat r" by (rule unat_ucast_u32_u8)
  then show ?thesis using Some r by (simp add: drawn_delay_def)
qed

lemma failed_draws_0: "failed_draws e n 0 = 0"
  by (simp add: failed_draws_def)

lemma failed_draws_Suc:
  "failed_draws e n (Suc k) =
     (if xApplicationGetRandomNumber e n = None then 1 else 0) + failed_draws e (Suc n) k"
proof -
  have "[n ..< n + Suc k] = n # [Suc n ..< Suc n + k]" by (simp add: upt_rec)
  then show ?thesis by (simp add: failed_draws_def)
qed

lemma rescheduled_cong:
  assumes "\<And>q. q \<in> set ps \<Longrightarrow> h' q = h q"
  shows "rescheduled m h' ps = rescheduled m h ps"
  unfolding rescheduled_def using assms by (intro filter_cong refl) auto

lemma rescheduled_Cons:
  "rescheduled m h (p # ps) =
     (case h p of None \<Rightarrow> [] | Some d \<Rightarrow> if must_reschedule m d then [p] else [])
     @ rescheduled m h ps"
  by (simp add: rescheduled_def split: option.splits)

lemma draws_before_hd: "draws_before m h (p # ps) p = 0"
  by (simp add: draws_before_def rescheduled_def)

lemma draws_before_tl:
  "q \<noteq> p \<Longrightarrow> draws_before m h (p # ps) q =
     (case h p of None \<Rightarrow> 0 | Some d \<Rightarrow> if must_reschedule m d then 1 else 0)
     + draws_before m h ps q"
  by (simp add: draws_before_def rescheduled_def split: option.splits)

lemma draws_before_cong:
  assumes "\<And>q. q \<in> set ps \<Longrightarrow> h' q = h q"
  shows "draws_before m h' ps p = draws_before m h ps p"
proof -
  have "rescheduled m h' (takeWhile (\<lambda>q. q \<noteq> p) ps)
      = rescheduled m h (takeWhile (\<lambda>q. q \<noteq> p) ps)"
    using assms by (intro rescheduled_cong) (auto dest: set_takeWhileD)
  then show ?thesis by (simp add: draws_before_def)
qed

lemma schedule_step_exact:
  assumes "reportHeap s p = Some d" "must_reschedule m d"
  shows "\<exists>v. drawn_delay e m (rndCalls s) (fallback_counter m f) = Some v
     \<and> schedule_reports e m (p # ps) (fallback_counter m f) s =
         schedule_reports e m ps
           (fallback_counter m (f + failed_draws e (rndCalls s) 1))
           (s\<lparr>reportHeap := (reportHeap s)(p \<mapsto> d\<lparr>ucCountDown := v\<rparr>),
              rndCalls := Suc (rndCalls s)\<rparr>)"
proof (cases "xApplicationGetRandomNumber e (rndCalls s)")
  case None
  have fd: "failed_draws e (rndCalls s) (Suc 0) = 1" using None by (simp add: failed_draws_def)
  show ?thesis using assms None fallback_counter_step[of m f]
    by (simp add: must_reschedule_def drawn_delay_def fd)
next
  case (Some x)
  have fd: "failed_draws e (rndCalls s) (Suc 0) = 0" using Some by (simp add: failed_draws_def)
  obtain r where r: "masked_random m x = Some r"
    using masked_random_bound by blast
  show ?thesis using assms Some r
    by (simp add: must_reschedule_def drawn_delay_def fd)
qed

lemma schedule_reports_exact:
  assumes "distinct ps" "\<forall>p\<in>set ps. reportHeap s p \<noteq> None"
  shows "\<exists>s'. schedule_reports e m ps (fallback_counter m f) s = Some s'
     \<and> rndCalls s' = rndCalls s + length (rescheduled m (reportHeap s) ps)
     \<and> (\<forall>q. q \<notin> set ps \<longrightarrow> reportHeap s' q = reportHeap s q)
     \<and> (\<forall>p\<in>set ps. \<forall>d. reportHeap s p = Some d \<longrightarrow>
          (if must_reschedule m d
           then \<exists>v. drawn_delay e m (rndCalls s + draws_before m (reportHeap s) ps p)
                       (fallback_counter m
                          (f + failed_draws e (rndCalls s) (draws_before m (reportHeap s) ps p)))
                     = Some v
                  \<and> reportHeap s' p = Some (d\<lparr>ucCountDown := v\<rparr>)
           else reportHeap s' p = Some d))"
  using assms
proof (induction ps arbitrary: f s)
  case Nil
  then show ?case by (simp add: rescheduled_def)
next
  case (Cons p ps)
  from Cons.prems obtain d where d: "reportHeap s p = Some d" by auto
  have pn: "p \<notin> set ps" and dist: "distinct ps" using Cons.prems(1) by auto
  show ?case
  proof (cases "must_reschedule m d")
    case False
    have eq: "schedule_reports e m (p # ps) (fallback_counter m f) s
               = schedule_reports e m ps (fallback_counter m f) s"
      using d False by (simp add: must_reschedule_def)
    obtain s' where s': "schedule_reports e m ps (fallback_counter m f) s = Some s'"
      and rc: "rndCalls s' = rndCalls s + length (rescheduled m (reportHeap s) ps)"
      and fr: "\<forall>q. q \<notin> set ps \<longrightarrow> reportHeap s' q = reportHeap s q"
      and ex: "\<forall>p\<in>set ps. \<forall>d. reportHeap s p = Some d \<longrightarrow>
          (if must_reschedule m d
           then \<exists>v. drawn_delay e m (rndCalls s + draws_before m (reportHeap s) ps p)
                       (fallback_counter m
                          (f + failed_draws e (rndCalls s) (draws_before m (reportHeap s) ps p)))
                     = Some v
                  \<and> reportHeap s' p = Some (d\<lparr>ucCountDown := v\<rparr>)
           else reportHeap s' p = Some d)"
      using Cons.IH[OF dist, of s f] Cons.prems(2) by auto
    have db: "draws_before m (reportHeap s) (p # ps) q = draws_before m (reportHeap s) ps q"
      if "q \<in> set ps" for q
      using that pn d False by (subst draws_before_tl) auto
    have hp: "reportHeap s' p = Some d" using fr pn d by simp
    have "\<forall>q\<in>set (p # ps). \<forall>d'. reportHeap s q = Some d' \<longrightarrow>
          (if must_reschedule m d'
           then \<exists>v. drawn_delay e m (rndCalls s + draws_before m (reportHeap s) (p # ps) q)
                       (fallback_counter m
                          (f + failed_draws e (rndCalls s) (draws_before m (reportHeap s) (p # ps) q)))
                     = Some v
                  \<and> reportHeap s' q = Some (d'\<lparr>ucCountDown := v\<rparr>)
           else reportHeap s' q = Some d')"
      using ex db hp d False by auto
    moreover have "rndCalls s' = rndCalls s + length (rescheduled m (reportHeap s) (p # ps))"
      using rc d False by (simp add: rescheduled_Cons)
    ultimately show ?thesis using eq s' fr by auto
  next
    case True
    let ?g = "f + failed_draws e (rndCalls s) 1"
    obtain v where v: "drawn_delay e m (rndCalls s) (fallback_counter m f) = Some v"
      and eq: "schedule_reports e m (p # ps) (fallback_counter m f) s =
         schedule_reports e m ps (fallback_counter m ?g)
           (s\<lparr>reportHeap := (reportHeap s)(p \<mapsto> d\<lparr>ucCountDown := v\<rparr>),
              rndCalls := Suc (rndCalls s)\<rparr>)"
      using schedule_step_exact[OF d True, of e f ps] by blast
    let ?s1 = "s\<lparr>reportHeap := (reportHeap s)(p \<mapsto> d\<lparr>ucCountDown := v\<rparr>),
                 rndCalls := Suc (rndCalls s)\<rparr>"
    have al: "\<forall>q\<in>set ps. reportHeap ?s1 q \<noteq> None" using Cons.prems(2) by simp
    obtain s' where s': "schedule_reports e m ps (fallback_counter m ?g) ?s1 = Some s'"
      and rc: "rndCalls s' = rndCalls ?s1 + length (rescheduled m (reportHeap ?s1) ps)"
      and fr: "\<forall>q. q \<notin> set ps \<longrightarrow> reportHeap s' q = reportHeap ?s1 q"
      and ex: "\<forall>p\<in>set ps. \<forall>d. reportHeap ?s1 p = Some d \<longrightarrow>
          (if must_reschedule m d
           then \<exists>v. drawn_delay e m (rndCalls ?s1 + draws_before m (reportHeap ?s1) ps p)
                       (fallback_counter m
                          (?g + failed_draws e (rndCalls ?s1) (draws_before m (reportHeap ?s1) ps p)))
                     = Some v
                  \<and> reportHeap s' p = Some (d\<lparr>ucCountDown := v\<rparr>)
           else reportHeap s' p = Some d)"
      using Cons.IH[OF dist al, of ?g] by blast
    have hp: "reportHeap s' p = Some (d\<lparr>ucCountDown := v\<rparr>)" using fr pn by simp
    have head: "drawn_delay e m (rndCalls s + draws_before m (reportHeap s) (p # ps) p)
                  (fallback_counter m
                     (f + failed_draws e (rndCalls s) (draws_before m (reportHeap s) (p # ps) p)))
                = Some v"
      using v by (simp add: draws_before_hd failed_draws_0)
    have tail: "if must_reschedule m d'
           then \<exists>v. drawn_delay e m (rndCalls s + draws_before m (reportHeap s) (p # ps) q)
                       (fallback_counter m
                          (f + failed_draws e (rndCalls s) (draws_before m (reportHeap s) (p # ps) q)))
                     = Some v
                  \<and> reportHeap s' q = Some (d'\<lparr>ucCountDown := v\<rparr>)
           else reportHeap s' q = Some d'"
      if q: "q \<in> set ps" and qd: "reportHeap s q = Some d'" for q d'
    proof -
      have qp: "q \<noteq> p" using q pn by auto
      have qd1: "reportHeap ?s1 q = Some d'" using qd qp by simp
      have db1: "draws_before m (reportHeap ?s1) ps q = draws_before m (reportHeap s) ps q"
        by (rule draws_before_cong) (use pn in auto)
      have db: "draws_before m (reportHeap s) (p # ps) q = Suc (draws_before m (reportHeap s) ps q)"
        using qp d True by (simp add: draws_before_tl)
      have fd: "failed_draws e (rndCalls s) (Suc k) = failed_draws e (rndCalls s) 1
                  + failed_draws e (Suc (rndCalls s)) k" for k
        by (simp add: failed_draws_Suc failed_draws_0)
      have *: "if must_reschedule m d'
           then \<exists>v. drawn_delay e m (rndCalls ?s1 + draws_before m (reportHeap ?s1) ps q)
                       (fallback_counter m
                          (?g + failed_draws e (rndCalls ?s1) (draws_before m (reportHeap ?s1) ps q)))
                     = Some v
                  \<and> reportHeap s' q = Some (d'\<lparr>ucCountDown := v\<rparr>)
           else reportHeap s' q = Some d'"
        using ex q qd1 by blast
      show ?thesis
      proof (cases "must_reschedule m d'")
        case False then show ?thesis using * by simp
      next
        case True
        then show ?thesis using * unfolding db1 db fd by (simp add: add.assoc)
      qed
    qed
    have fr': "\<forall>q. q \<notin> set (p # ps) \<longrightarrow> reportHeap s' q = reportHeap s q" using fr by simp
    have "\<forall>q\<in>set (p # ps). \<forall>d'. reportHeap s q = Some d' \<longrightarrow>
          (if must_reschedule m d'
           then \<exists>v. drawn_delay e m (rndCalls s + draws_before m (reportHeap s) (p # ps) q)
                       (fallback_counter m
                          (f + failed_draws e (rndCalls s) (draws_before m (reportHeap s) (p # ps) q)))
                     = Some v
                  \<and> reportHeap s' q = Some (d'\<lparr>ucCountDown := v\<rparr>)
           else reportHeap s' q = Some d')"
      using head hp tail d True by auto
    moreover have "rndCalls s' = rndCalls s + length (rescheduled m (reportHeap s) (p # ps))"
    proof -
      have "rescheduled m (reportHeap ?s1) ps = rescheduled m (reportHeap s) ps"
        by (rule rescheduled_cong) (use pn in auto)
      then show ?thesis using rc d True by (simp add: rescheduled_Cons)
    qed
    ultimately show ?thesis using eq s' fr' by auto
  qed
qed

lemma registry_ok_four_reports: "registry_ok four_reports"
  by (simp add: registry_ok_def four_reports_def boot_def)

lemma four_reports_simps:
    "xIGMP_ScheduleList four_reports = [1, 2, 3, 4]"
    "reportHeap four_reports 1 = Some (report0 0)" "reportHeap four_reports 2 = Some (report0 2)"
    "reportHeap four_reports 3 = Some (report0 3)" "reportHeap four_reports 4 = Some (report0 0)"
    "rndCalls four_reports = 0"
  by (simp_all add: four_reports_def boot_def)

lemma report0_simps:
  "ucCountDown (report0 c) = c" "(report0 c)\<lparr>ucCountDown := c'\<rparr> = report0 c'"
  by (simp_all add: report0_def)

lemma query_delay_no_random:
    "query_delay env_no_random 3 four_reports 1 = Some 1"
    "query_delay env_no_random 3 four_reports 3 = Some 2"
    "query_delay env_no_random 3 four_reports 4 = Some 1"
proof -
  have w3: "unat (ucMaxRespTime 3) = 2" by (simp add: ucMaxRespTime_def)
  have db: "draws_before 3 (reportHeap four_reports) [1, 2, 3, 4] 1 = 0"
    "draws_before 3 (reportHeap four_reports) [1, 2, 3, 4] 3 = 1"
    "draws_before 3 (reportHeap four_reports) [1, 2, 3, 4] 4 = 2"
    by (simp_all add: draws_before_def rescheduled_def four_reports_def boot_def
        must_reschedule_def report0_def)
  have fd: "failed_draws env_no_random 0 0 = 0" "failed_draws env_no_random 0 1 = 1"
    "failed_draws env_no_random 0 2 = 2"
    by (simp_all add: failed_draws_def env_no_random_def)
  have fc: "fallback_counter 3 0 = 1" "fallback_counter 3 1 = 2" "fallback_counter 3 2 = 1"
    by (simp_all add: fallback_counter_def w3)
  show "query_delay env_no_random 3 four_reports 1 = Some 1"
    unfolding query_delay_def Let_def four_reports_simps db fd fc
    by (simp add: drawn_delay_def env_no_random_def)
  show "query_delay env_no_random 3 four_reports 3 = Some 2"
    unfolding query_delay_def Let_def four_reports_simps db fd fc
    by (simp add: drawn_delay_def env_no_random_def)
  show "query_delay env_no_random 3 four_reports 4 = Some 1"
    unfolding query_delay_def Let_def four_reports_simps db fd fc
    by (simp add: drawn_delay_def env_no_random_def)
qed

text \<open>
  Claim C7 (random-mask construction): the mask should be the smallest number of the form
  \<open>2^k - 1\<close> that is at least the window. The code smears the decremented window by 1 and
  by 2 bits only: for \<open>ucMaxResponseTime = 18\<close> (window 17) it computes 30, which is not of
  that form (the specified mask is 31), and for \<open>ucMaxResponseTime = 3\<close> (window 2) it
  computes 1, which is below the window (the specified mask is 3). With the mask 30 the
  random value 17 yields the delay 16, where the mask 31 would yield 17.
\<close>

theorem C7_RandMask_not_smallest_mask:
  "unat (RandMask (ucMaxRespTime 18)) = 30 \<and> spec_smallest_mask (unat (ucMaxRespTime 18)) = 31
   \<and> unat (RandMask (ucMaxRespTime 3)) = 1 \<and> spec_smallest_mask (unat (ucMaxRespTime 3)) = 3
   \<and> masked_random 18 17 = Some 16"
  by (simp add: RandMask_def ucMaxRespTime_def spec_smallest_mask_def upt_rec masked_random_def
      reduce_random.simps)

text \<open>
  Claim C4 (bounded randomness): when a general query with max response time \<open>m\<close> is
  processed, whatever the random source answers, every entry that is rescheduled gets a
  countdown that is not 0 and lies in \<open>[1, m - 1]\<close> when \<open>m \<ge> 2\<close>; for \<open>m < 2\<close> the window
  and the draw are those of \<open>m = 2\<close> and the countdown is exactly 1.
\<close>

theorem C4_delay_bounded:
  assumes "general_query b m" "registry_ok s"
  shows "\<exists>s'. eProcessIGMPPacket e b s = Some (eReleaseBuffer, s')
     \<and> (\<forall>p\<in>set (xIGMP_ScheduleList s). \<forall>d. reportHeap s p = Some d \<longrightarrow> must_reschedule m d \<longrightarrow>
          (\<exists>d'. reportHeap s' p = Some d' \<and> ucCountDown d' \<noteq> 0
             \<and> 1 \<le> unat (ucCountDown d')
             \<and> (2 \<le> unat m \<longrightarrow> unat (ucCountDown d') \<le> unat m - 1)
             \<and> (unat m < 2 \<longrightarrow> ucCountDown d' = 1)))
     \<and> (unat m < 2 \<longrightarrow> ucMaxRespTime m = ucMaxRespTime 2 \<and> masked_random m = masked_random 2)"
proof -
  obtain s' where s': "eProcessIGMPPacket e b s = Some (eReleaseBuffer, s')"
    and post: "sched_post e m (xIGMP_ScheduleList s) (s\<lparr>uiNumIGMP_Queries := uiNumIGMP_Queries s + 1\<rparr>) s'"
    using eProcess_general_query[OF assms] by blast
  have w: "unat (ucMaxRespTime m) = max 2 (unat m) - 1" by (rule ucMaxRespTime_unat)
  have bound: "\<exists>d'. reportHeap s' p = Some d' \<and> ucCountDown d' \<noteq> 0
             \<and> 1 \<le> unat (ucCountDown d')
             \<and> (2 \<le> unat m \<longrightarrow> unat (ucCountDown d') \<le> unat m - 1)
             \<and> (unat m < 2 \<longrightarrow> ucCountDown d' = 1)"
    if p: "p \<in> set (xIGMP_ScheduleList s)" and d: "reportHeap s p = Some d" and r: "must_reschedule m d"
    for p d
  proof -
    obtain v where v: "1 \<le> unat v" "unat v \<le> unat (ucMaxRespTime m)"
        "reportHeap s' p = Some (d\<lparr>ucCountDown := v\<rparr>)"
      using post p d r unfolding sched_post_def by fastforce
    have nz: "v \<noteq> 0" using v(1) by (auto simp: unat_eq_0)
    have one: "v = 1" if "unat m < 2"
    proof -
      have "unat v = 1" using v(1,2) w that by simp
      then show ?thesis by (simp add: word_unat_eq_iff)
    qed
    show ?thesis using v nz one w by auto
  qed
  have same: "ucMaxRespTime m = ucMaxRespTime 2 \<and> masked_random m = masked_random 2" if "unat m < 2"
  proof -
    have "\<not> 2 \<le> m" using that by (simp add: word_le_nat_alt)
    then have "ucMaxRespTime m = ucMaxRespTime 2" by (simp add: ucMaxRespTime_def max_def)
    then show ?thesis by (auto simp: masked_random_def fun_eq_iff)
  qed
  show ?thesis using s' bound same by blast
qed

theorem C4_delay_bounded_witness:
  "general_query (query_frame 10) 10 \<and> general_query (query_frame 1) 1
   \<and> registry_ok (one_report 0)
   \<and> (\<exists>s' d'. eProcessIGMPPacket env0 (query_frame 10) (one_report 0) = Some (eReleaseBuffer, s')
         \<and> reportHeap s' 1 = Some d' \<and> 1 \<le> unat (ucCountDown d') \<and> unat (ucCountDown d') \<le> 9)
   \<and> (\<exists>s' d'. eProcessIGMPPacket env0 (query_frame 1) (one_report 0) = Some (eReleaseBuffer, s')
         \<and> reportHeap s' 1 = Some d' \<and> ucCountDown d' = 1)"
proof -
  have r: "reportHeap (one_report 0) 1 = Some (report0 0)" "xIGMP_ScheduleList (one_report 0) = [1]"
    by (simp_all add: one_report_def boot_def)
  have m: "must_reschedule 10 (report0 0)" "must_reschedule 1 (report0 0)"
    by (simp_all add: must_reschedule_def report0_def)
  have a: "\<exists>s' d'. eProcessIGMPPacket env0 (query_frame 10) (one_report 0) = Some (eReleaseBuffer, s')
         \<and> reportHeap s' 1 = Some d' \<and> 1 \<le> unat (ucCountDown d') \<and> unat (ucCountDown d') \<le> 9"
    using C4_delay_bounded[OF general_query_frame[of 10] registry_ok_one_report[of 0], where e=env0] r m(1)
    by fastforce
  have b: "\<exists>s' d'. eProcessIGMPPacket env0 (query_frame 1) (one_report 0) = Some (eReleaseBuffer, s')
         \<and> reportHeap s' 1 = Some d' \<and> ucCountDown d' = 1"
    using C4_delay_bounded[OF general_query_frame[of 1] registry_ok_one_report[of 0], where e=env0] r m(2)
    by fastforce
  show ?thesis using a b general_query_frame registry_ok_one_report by blast
qed

text \<open>
  Claim C5 as stated fails where the countdown equals the max response time: an entry with
  countdown 10 does not exceed the max response time 10 of a general query, and is
  overwritten (here with 5).
\<close>

theorem C5_equal_countdown_rescheduled:
  "0 < ucCountDown (report0 10) \<and> \<not> ucCountDown (report0 10) > 10
   \<and> general_query (query_frame 10) 10
   \<and> eProcessIGMPPacket env0 (query_frame 10) (one_report 10) =
       Some (eReleaseBuffer, (one_report 5)\<lparr>uiNumIGMP_Queries := 1, rndCalls := 1\<rparr>)"
proof -
  have "masked_random 10 5 = Some 5"
    by (simp add: masked_random_def RandMask_def ucMaxRespTime_def reduce_random.simps)
  then have "eProcessIGMPPacket env0 (query_frame 10) (one_report 10) =
       Some (eReleaseBuffer, (one_report 5)\<lparr>uiNumIGMP_Queries := 1, rndCalls := 1\<rparr>)"
    using general_query_frame[of 10]
    by (simp add: eProcessIGMPPacket_def general_query_def one_report_def boot_def report0_def env0_def query_frame_def)
  then show ?thesis using general_query_frame[of 10] by (simp add: report0_def)
qed

text \<open>
  Claim C5, amended (general-query reschedule condition): when a general query with max
  response time \<open>m\<close> is processed, every registry entry whose countdown is 0 or is greater
  than or equal to \<open>m\<close> has its countdown overwritten with a freshly drawn delay, and every
  entry whose countdown is greater than 0 and less than \<open>m\<close> is left untouched. The delay
  is \<open>query_delay\<close>: the loop calls the random source once for each entry it reschedules
  (and for no other), the entry's delay is drawn from its own call, or, when that call
  fails, is the value the fallback counter has at that moment; it lies in
  \<open>[1, max(2, m) - 1]\<close>.
\<close>

theorem C5_reschedule_condition:
  assumes "general_query b m" "registry_ok s"
  shows "\<exists>s'. eProcessIGMPPacket e b s = Some (eReleaseBuffer, s')
     \<and> rndCalls s' = rndCalls s + length (rescheduled m (reportHeap s) (xIGMP_ScheduleList s))
     \<and> (\<forall>p\<in>set (xIGMP_ScheduleList s). \<forall>d. reportHeap s p = Some d \<longrightarrow>
          (if ucCountDown d = 0 \<or> m \<le> ucCountDown d
           then \<exists>v. query_delay e m s p = Some v
                  \<and> 1 \<le> unat v \<and> unat v \<le> unat (ucMaxRespTime m)
                  \<and> reportHeap s' p = Some (d\<lparr>ucCountDown := v\<rparr>)
           else reportHeap s' p = Some d))"
proof -
  let ?s1 = "s\<lparr>uiNumIGMP_Queries := uiNumIGMP_Queries s + 1\<rparr>"
  let ?ps = "xIGMP_ScheduleList s"
  have c1: "fallback_counter m 0 = 1" by (simp add: fallback_counter_def)
  have d: "distinct ?ps" and al: "\<forall>p\<in>set ?ps. reportHeap ?s1 p \<noteq> None"
    using assms(2) by (simp_all add: registry_ok_def)
  obtain s' where s': "schedule_reports e m ?ps 1 ?s1 = Some s'"
    and rc: "rndCalls s' = rndCalls ?s1 + length (rescheduled m (reportHeap ?s1) ?ps)"
    and ex: "\<forall>p\<in>set ?ps. \<forall>d. reportHeap ?s1 p = Some d \<longrightarrow>
          (if must_reschedule m d
           then \<exists>v. drawn_delay e m (rndCalls ?s1 + draws_before m (reportHeap ?s1) ?ps p)
                       (fallback_counter m
                          (0 + failed_draws e (rndCalls ?s1) (draws_before m (reportHeap ?s1) ?ps p)))
                     = Some v
                  \<and> reportHeap s' p = Some (d\<lparr>ucCountDown := v\<rparr>)
           else reportHeap s' p = Some d)"
    using schedule_reports_exact[OF d al, of e m 0] unfolding c1 by blast
  have run: "eProcessIGMPPacket e b s = Some (eReleaseBuffer, s')"
    using assms(1) s' by (simp add: eProcessIGMPPacket_def general_query_def)
  have each: "if ucCountDown d = 0 \<or> m \<le> ucCountDown d
           then \<exists>v. query_delay e m s p = Some v
                  \<and> 1 \<le> unat v \<and> unat v \<le> unat (ucMaxRespTime m)
                  \<and> reportHeap s' p = Some (d\<lparr>ucCountDown := v\<rparr>)
           else reportHeap s' p = Some d"
    if p: "p \<in> set ?ps" and pd: "reportHeap s p = Some d" for p d
  proof (cases "must_reschedule m d")
    case True
    let ?k = "draws_before m (reportHeap s) ?ps p"
    let ?c = "fallback_counter m (failed_draws e (rndCalls s) ?k)"
    obtain v where v: "drawn_delay e m (rndCalls s + ?k) ?c = Some v"
        "reportHeap s' p = Some (d\<lparr>ucCountDown := v\<rparr>)"
      using ex p pd True by fastforce
    obtain v' where v': "drawn_delay e m (rndCalls s + ?k) ?c = Some v'"
        "1 \<le> unat v'" "unat v' \<le> unat (ucMaxRespTime m)"
      using drawn_delay_bound[where c = ?c and m = m and e = e and i = "rndCalls s + ?k"]
        fallback_counter_bound[of m "failed_draws e (rndCalls s) ?k"] by blast
    have "v' = v" using v(1) v'(1) by simp
    then have "query_delay e m s p = Some v \<and> 1 \<le> unat v \<and> unat v \<le> unat (ucMaxRespTime m)"
      using v(1) v'(2,3) by (simp add: query_delay_def)
    then show ?thesis using True v(2) by (auto simp: must_reschedule_def)
  next
    case False
    then have "reportHeap s' p = Some d" using ex p pd by fastforce
    then show ?thesis using False by (auto simp: must_reschedule_def)
  qed
  have "rndCalls s' = rndCalls s + length (rescheduled m (reportHeap s) ?ps)" using rc by simp
  then show ?thesis using run each by blast
qed

theorem C5_reschedule_condition_witness:
  "general_query (query_frame 11) 11 \<and> registry_ok (one_report 3)
   \<and> (\<exists>s'. eProcessIGMPPacket env0 (query_frame 11) (one_report 3) = Some (eReleaseBuffer, s')
         \<and> reportHeap s' 1 = Some (report0 3))
   \<and> general_query (query_frame 3) 3 \<and> registry_ok four_reports
   \<and> (\<exists>s'. eProcessIGMPPacket env_no_random (query_frame 3) four_reports = Some (eReleaseBuffer, s')
         \<and> rndCalls s' = 3
         \<and> reportHeap s' 1 = Some (report0 1) \<and> reportHeap s' 2 = Some (report0 2)
         \<and> reportHeap s' 3 = Some (report0 2) \<and> reportHeap s' 4 = Some (report0 1))"
proof -
  have r: "reportHeap (one_report 3) 1 = Some (report0 3)" "xIGMP_ScheduleList (one_report 3) = [1]"
    by (simp_all add: one_report_def boot_def)
  have m: "\<not> (ucCountDown (report0 3) = 0 \<or> 11 \<le> ucCountDown (report0 3))"
    by (simp add: report0_def)
  have a: "\<exists>s'. eProcessIGMPPacket env0 (query_frame 11) (one_report 3) = Some (eReleaseBuffer, s')
         \<and> reportHeap s' 1 = Some (report0 3)"
    using C5_reschedule_condition[OF general_query_frame[of 11] registry_ok_one_report[of 3], where e=env0] r m
    by fastforce
  obtain s' where run: "eProcessIGMPPacket env_no_random (query_frame 3) four_reports = Some (eReleaseBuffer, s')"
    and rc: "rndCalls s' = rndCalls four_reports
               + length (rescheduled 3 (reportHeap four_reports) (xIGMP_ScheduleList four_reports))"
    and each: "\<And>p d. p \<in> set (xIGMP_ScheduleList four_reports) \<Longrightarrow> reportHeap four_reports p = Some d \<Longrightarrow>
          (if ucCountDown d = 0 \<or> 3 \<le> ucCountDown d
           then \<exists>v. query_delay env_no_random 3 four_reports p = Some v
                  \<and> 1 \<le> unat v \<and> unat v \<le> unat (ucMaxRespTime 3)
                  \<and> reportHeap s' p = Some (d\<lparr>ucCountDown := v\<rparr>)
           else reportHeap s' p = Some d)"
    using C5_reschedule_condition[OF general_query_frame[of 3] registry_ok_four_reports,
        where e=env_no_random]
    by blast
  have rs3: "rescheduled 3 (reportHeap four_reports) [1, 2, 3, 4] = [1, 3, 4]"
    by (simp add: rescheduled_def four_reports_def boot_def must_reschedule_def report0_def)
  have n: "rndCalls s' = 3" using rc unfolding four_reports_simps rs3 by simp
  have mem: "1 \<in> set (xIGMP_ScheduleList four_reports)" "2 \<in> set (xIGMP_ScheduleList four_reports)"
    "3 \<in> set (xIGMP_ScheduleList four_reports)" "4 \<in> set (xIGMP_ScheduleList four_reports)"
    unfolding four_reports_simps by simp_all
  have p1: "reportHeap s' 1 = Some (report0 1)"
    using each[OF mem(1) four_reports_simps(2)] query_delay_no_random(1)
    by (simp add: report0_simps)
  have p2: "reportHeap s' 2 = Some (report0 2)"
    using each[OF mem(2) four_reports_simps(3)]
    by (simp add: report0_simps)
  have p3: "reportHeap s' 3 = Some (report0 2)"
    using each[OF mem(3) four_reports_simps(4)] query_delay_no_random(2)
    by (simp add: report0_simps)
  have p4: "reportHeap s' 4 = Some (report0 1)"
    using each[OF mem(4) four_reports_simps(5)] query_delay_no_random(3)
    by (simp add: report0_simps)
  have b: "\<exists>s'. eProcessIGMPPacket env_no_random (query_frame 3) four_reports = Some (eReleaseBuffer, s')
         \<and> rndCalls s' = 3
         \<and> reportHeap s' 1 = Some (report0 1) \<and> reportHeap s' 2 = Some (report0 2)
         \<and> reportHeap s' 3 = Some (report0 2) \<and> reportHeap s' 4 = Some (report0 1)"
    using run n p1 p2 p3 p4 by blast
  show ?thesis using a b general_query_frame registry_ok_one_report registry_ok_four_reports
    by blast
qed

text \<open>
  Claim C8 (short-frame safety): for a buffer whose data length is less than the size of
  \<open>IGMPPacket_t\<close>, \<open>eProcessIGMPPacket\<close> returns \<open>eReleaseBuffer\<close> with the state unchanged,
  whatever the bytes of the buffer are (no header field is read).
\<close>

theorem C8_short_frame:
  assumes "xDataLength b < sizeof_IGMPPacket_t"
  shows "eProcessIGMPPacket e b s = Some (eReleaseBuffer, s)
     \<and> eProcessIGMPPacket e (b\<lparr>pucEthernetBuffer := bytes\<rparr>) s = Some (eReleaseBuffer, s)"
  using assms by (simp add: eProcessIGMPPacket_def)

theorem C8_short_frame_witness:
  "xDataLength \<lparr>pucEthernetBuffer = [], xDataLength = 41\<rparr> < sizeof_IGMPPacket_t
   \<and> eProcessIGMPPacket env0 \<lparr>pucEthernetBuffer = [], xDataLength = 41\<rparr> (one_report 3)
       = Some (eReleaseBuffer, one_report 3)"
  using C8_short_frame[of "\<lparr>pucEthernetBuffer = [], xDataLength = 41\<rparr>" env0 "one_report 3"]
  by simp

text \<open>
  Claim C9 (discard-only result): \<open>eProcessIGMPPacket\<close> returns on every buffer whose claimed
  length lies within its bytes, and whatever it returns is \<open>eReleaseBuffer\<close>.
\<close>

theorem C9_always_release:
  "(buffer_ok b \<and> registry_ok s \<longrightarrow> (\<exists>s'. eProcessIGMPPacket e b s = Some (eReleaseBuffer, s')))
   \<and> (\<forall>r s'. eProcessIGMPPacket e b s = Some (r, s') \<longrightarrow> r = eReleaseBuffer)"
proof (intro conjI impI allI)
  assume ok: "buffer_ok b \<and> registry_ok s"
  show "\<exists>s'. eProcessIGMPPacket e b s = Some (eReleaseBuffer, s')"
  proof (cases "xDataLength b < sizeof_IGMPPacket_t")
    case True
    then show ?thesis by (simp add: eProcessIGMPPacket_def)
  next
    case False
    then have len: "42 \<le> xDataLength b" by simp
    obtain ty where ty: "read_u8 b offset_ucTypeOfMessage = Some ty"
      using read_u8_ok[of b 34] ok len by auto
    obtain grp where grp: "read_u32 b offset_uiGroupAddress = Some grp"
      using read_u32_ok[of b 38] ok len by auto
    obtain m where m: "read_u8 b offset_ucMaxResponseTime = Some m"
      using read_u8_ok[of b 35] ok len by auto
    show ?thesis
    proof (cases "ty = ipIGMP_MEMBERSHIP_QUERY \<and> grp = 0")
      case True
      then have "general_query b m" using ty grp m len by (simp add: general_query_def)
      then show ?thesis using eProcess_general_query ok by blast
    next
      case False
      then show ?thesis using ty grp m len
        by (auto simp: eProcessIGMPPacket_def)
    qed
  qed
next
  fix r s' assume "eProcessIGMPPacket e b s = Some (r, s')"
  then show "r = eReleaseBuffer"
    by (auto simp: eProcessIGMPPacket_def Let_def split: if_splits Option.bind_splits)
qed

theorem C9_always_release_witness:
  "buffer_ok (query_frame 10) \<and> registry_ok (one_report 0)
   \<and> (\<exists>s'. eProcessIGMPPacket env0 (query_frame 10) (one_report 0) = Some (eReleaseBuffer, s'))"
  using C9_always_release[of "query_frame 10" "one_report 0" env0] registry_ok_one_report[of 0]
  by (simp add: buffer_ok_def query_frame_def)

section \<open>The tick handler\<close>

lemma due_reports_cong:
  "(\<And>q. q \<in> set ps \<Longrightarrow> h q = h' q) \<Longrightarrow> due_reports h ps = due_reports h' ps"
  by (induction ps) (auto simp: due_reports_def)

lemma due_reports_Cons:
  "due_reports h (p # ps) =
     (case h p of Some d \<Rightarrow> if ucCountDown d = 1 then [report_addr d] else [] | None \<Rightarrow> [])
     @ due_reports h ps"
  by (simp add: due_reports_def)

lemma handle_step:
  assumes "reportHeap s p = Some d"
  shows "\<exists>s1. handle_reports e (p # ps) s = handle_reports e ps s1
     \<and> s1 = s\<lparr>reportHeap := reportHeap s1, bufCalls := bufCalls s1, events := events s1\<rparr>
     \<and> reportHeap s1 = (reportHeap s)(p \<mapsto> tick_desc d)
     \<and> bufCalls s1 = bufCalls s + length (due_reports (reportHeap s) [p])
     \<and> events s1 = events s @ sent_reports e (bufCalls s) (due_reports (reportHeap s) [p])"
proof (cases "ucCountDown d = 0")
  case True
  have "(reportHeap s)(p \<mapsto> d) = reportHeap s" using assms by (simp add: fun_upd_idem)
  then show ?thesis using True assms
    by (intro exI[of _ s]) (simp add: tick_desc_def due_reports_def)
next
  case nz: False
  then have pos: "0 < ucCountDown d" by (simp add: word_greater_zero_iff)
  show ?thesis
  proof (cases "ucCountDown d = 1")
    case True
    let ?s1 = "vSendIGMP e ipIGMP_MEMBERSHIP_REPORT_V2 0 (report_addr d) (report_addr d)
                 (s\<lparr>reportHeap := (reportHeap s)(p \<mapsto> d\<lparr>ucCountDown := ucCountDown d - 1\<rparr>)\<rparr>)"
    show ?thesis using True assms
      by (intro exI[of _ ?s1]) (simp add: tick_desc_def due_reports_def vSendIGMP_def)
  next
    case False
    let ?s1 = "s\<lparr>reportHeap := (reportHeap s)(p \<mapsto> d\<lparr>ucCountDown := ucCountDown d - 1\<rparr>)\<rparr>"
    show ?thesis using False pos assms
      by (intro exI[of _ ?s1]) (simp add: tick_desc_def due_reports_def)
  qed
qed

lemma sent_reports_append:
  "sent_reports e n (xs @ ys) = sent_reports e n xs @ sent_reports e (n + length xs) ys"
  by (induction xs arbitrary: n) auto

lemma handle_reports_effect:
  assumes "distinct ps" "\<forall>p\<in>set ps. reportHeap s p \<noteq> None"
  shows "\<exists>s'. handle_reports e ps s = Some s' \<and> tick_post e ps s s'"
  using assms
proof (induction ps arbitrary: s)
  case Nil
  then show ?case by (simp add: tick_post_def due_reports_def)
next
  case (Cons p ps)
  from Cons.prems obtain d where d: "reportHeap s p = Some d" by auto
  have pn: "p \<notin> set ps" and dist: "distinct ps" using Cons.prems(1) by auto
  obtain s1 where eq: "handle_reports e (p # ps) s = handle_reports e ps s1"
    and fr: "s1 = s\<lparr>reportHeap := reportHeap s1, bufCalls := bufCalls s1, events := events s1\<rparr>"
    and h1: "reportHeap s1 = (reportHeap s)(p \<mapsto> tick_desc d)"
    and b1: "bufCalls s1 = bufCalls s + length (due_reports (reportHeap s) [p])"
    and e1: "events s1 = events s @ sent_reports e (bufCalls s) (due_reports (reportHeap s) [p])"
    using handle_step[OF d, of e ps] by blast
  have al: "\<forall>q\<in>set ps. reportHeap s1 q \<noteq> None" using Cons.prems(2) h1 by simp
  obtain s' where s': "handle_reports e ps s1 = Some s'" and post: "tick_post e ps s1 s'"
    using Cons.IH[OF dist al] by blast
  have due1: "due_reports (reportHeap s1) ps = due_reports (reportHeap s) ps"
    by (rule due_reports_cong) (use pn h1 in auto)
  have due: "due_reports (reportHeap s) (p # ps)
      = due_reports (reportHeap s) [p] @ due_reports (reportHeap s) ps"
    by (simp add: due_reports_def)
  have a1: "s' = s\<lparr>reportHeap := reportHeap s', bufCalls := bufCalls s', events := events s'\<rparr>"
  proof -
    have "s' = s1\<lparr>reportHeap := reportHeap s', bufCalls := bufCalls s', events := events s'\<rparr>"
      using post unfolding tick_post_def by blast
    also have "\<dots> = s\<lparr>reportHeap := reportHeap s', bufCalls := bufCalls s', events := events s'\<rparr>"
      by (subst fr) simp
    finally show ?thesis .
  qed
  have a2: "\<forall>q. q \<notin> set (p # ps) \<longrightarrow> reportHeap s' q = reportHeap s q"
    using post h1 unfolding tick_post_def by simp
  have a3: "\<forall>q\<in>set (p # ps). \<forall>d'. reportHeap s q = Some d' \<longrightarrow> reportHeap s' q = Some (tick_desc d')"
  proof (intro ballI allI impI)
    fix q d' assume q: "q \<in> set (p # ps)" and qd: "reportHeap s q = Some d'"
    show "reportHeap s' q = Some (tick_desc d')"
    proof (cases "q = p")
      case True
      then have "reportHeap s' q = reportHeap s1 p" using post pn unfolding tick_post_def by simp
      then show ?thesis using h1 d qd True by simp
    next
      case False
      then have "q \<in> set ps" "reportHeap s1 q = Some d'" using q qd h1 by auto
      then show ?thesis using post unfolding tick_post_def by blast
    qed
  qed
  have a4: "bufCalls s' = bufCalls s + length (due_reports (reportHeap s) (p # ps))"
    using post b1 due1 due unfolding tick_post_def by simp
  have a5: "events s' = events s @ sent_reports e (bufCalls s) (due_reports (reportHeap s) (p # ps))"
    using post b1 e1 due1 due unfolding tick_post_def by (simp add: sent_reports_append)
  have "tick_post e (p # ps) s s'"
    unfolding tick_post_def using a1 a2 a3 a4 a5 by blast
  then show ?case using eq s' by simp
qed

lemma sent_reports_all_buffers:
  "(\<forall>n. pxGetNetworkBufferWithDescriptor e n) \<Longrightarrow>
   sent_reports e n as =
     map (\<lambda>a. NetworkInterfaceOutputToPortX (igmp_frame e ipIGMP_MEMBERSHIP_REPORT_V2 0 a a)) as"
  by (induction as arbitrary: n) auto

text \<open>
  Claim C6 as stated fails when the buffer pool is exhausted: the countdown of the entry
  goes from 1 to 0 and no frame is emitted.
\<close>

theorem C6_no_buffer_no_frame:
  "ucCountDown (report0 1) = 1
   \<and> vHandleIGMP_Event env_no_buffer (one_report 1) = Some ((one_report 0)\<lparr>bufCalls := 1\<rparr>)
   \<and> events ((one_report 0)\<lparr>bufCalls := 1\<rparr>) = events (one_report 1)"
  by (simp add: vHandleIGMP_Event_def one_report_def boot_def report0_def env_no_buffer_def
      env0_def vSendIGMP_def)

text \<open>
  Claim C6, amended (tick firing): one invocation of the tick handler decrements the
  countdown of every registry entry whose countdown is greater than 0 and leaves an entry
  with countdown 0 unmodified; for every entry whose countdown reaches 0 it requests one
  network buffer and, when the pool grants it, emits exactly one IGMPv2 membership-report
  frame for that entry's group, with destination equal to the group address; when no buffer
  is granted nothing is sent for that entry. No frame is emitted for any other entry.
\<close>

theorem C6_tick:
  assumes "registry_ok s"
  shows "\<exists>s'. vHandleIGMP_Event e s = Some s'
     \<and> xIGMP_ScheduleList s' = xIGMP_ScheduleList s
     \<and> (\<forall>p\<in>set (xIGMP_ScheduleList s). \<forall>d. reportHeap s p = Some d \<longrightarrow>
          reportHeap s' p =
            Some (if 0 < ucCountDown d then d\<lparr>ucCountDown := ucCountDown d - 1\<rparr> else d))
     \<and> events s' = events s @
          sent_reports e (bufCalls s) (due_reports (reportHeap s) (xIGMP_ScheduleList s))
     \<and> ((\<forall>n. pxGetNetworkBufferWithDescriptor e n) \<longrightarrow>
          events s' = events s @
            map (\<lambda>a. NetworkInterfaceOutputToPortX (igmp_frame e ipIGMP_MEMBERSHIP_REPORT_V2 0 a a))
              (due_reports (reportHeap s) (xIGMP_ScheduleList s)))
     \<and> (\<forall>t r a. ulDestinationIPAddress (igmp_frame e t r a a) = uiGroupAddress (igmp_frame e t r a a))"
proof -
  obtain s' where s': "handle_reports e (xIGMP_ScheduleList s) s = Some s'"
    and post: "tick_post e (xIGMP_ScheduleList s) s s'"
    using handle_reports_effect[of "xIGMP_ScheduleList s" s e] assms
    by (auto simp: registry_ok_def)
  have l: "xIGMP_ScheduleList s' = xIGMP_ScheduleList s"
  proof -
    have fr: "s' = s\<lparr>reportHeap := reportHeap s', bufCalls := bufCalls s', events := events s'\<rparr>"
      using post unfolding tick_post_def by blast
    have "xIGMP_ScheduleList s' = xIGMP_ScheduleList
        (s\<lparr>reportHeap := reportHeap s', bufCalls := bufCalls s', events := events s'\<rparr>)"
      by (rule arg_cong[OF fr])
    then show ?thesis by simp
  qed
  have ev: "events s' = events s @
          sent_reports e (bufCalls s) (due_reports (reportHeap s) (xIGMP_ScheduleList s))"
    using post unfolding tick_post_def by blast
  have hp: "\<forall>p\<in>set (xIGMP_ScheduleList s). \<forall>d. reportHeap s p = Some d \<longrightarrow>
          reportHeap s' p =
            Some (if 0 < ucCountDown d then d\<lparr>ucCountDown := ucCountDown d - 1\<rparr> else d)"
    using post unfolding tick_post_def tick_desc_def by simp
  show ?thesis using s' l ev hp
    by (simp add: vHandleIGMP_Event_def sent_reports_all_buffers igmp_frame_def)
qed

theorem C6_tick_witness:
  "registry_ok (one_report 1)
   \<and> (\<exists>s'. vHandleIGMP_Event env0 (one_report 1) = Some s'
        \<and> reportHeap s' 1 = Some (report0 0)
        \<and> events s' = [NetworkInterfaceOutputToPortX
             (igmp_frame env0 ipIGMP_MEMBERSHIP_REPORT_V2 0 0xE0000105 0xE0000105)])"
proof -
  have r: "reportHeap (one_report 1) 1 = Some (report0 1)" "xIGMP_ScheduleList (one_report 1) = [1]"
    "events (one_report 1) = []"
    by (simp_all add: one_report_def boot_def)
  have b: "\<forall>n. pxGetNetworkBufferWithDescriptor env0 n" by (simp add: env0_def)
  have d: "due_reports (reportHeap (one_report 1)) [1] = [0xE0000105]"
    by (simp add: due_reports_def one_report_def boot_def report0_def report_addr_def)
  have "\<exists>s'. vHandleIGMP_Event env0 (one_report 1) = Some s'
        \<and> reportHeap s' 1 = Some (report0 0)
        \<and> events s' = [NetworkInterfaceOutputToPortX
             (igmp_frame env0 ipIGMP_MEMBERSHIP_REPORT_V2 0 0xE0000105 0xE0000105)]"
    using C6_tick[OF registry_ok_one_report[of 1], of env0] r b d
    by (auto simp: report0_def)
  then show ?thesis using registry_ok_one_report by blast
qed

section \<open>xAddIGMPReportToList\<close>

lemma BaseType_inc:
  fixes w :: BaseType_t
  assumes "sint w < 2147483647"
  shows "sint (w + 1) = sint w + 1"
proof -
  have lo: "- (2 ^ (LENGTH(32) - 1)) \<le> sint w" by (rule sint_ge)
  have "sint (w + 1) = signed_take_bit (LENGTH(32) - 1) (sint w + sint (1::32 word))"
    by (rule sint_word_ariths)
  also have "\<dots> = signed_take_bit 31 (sint w + 1)" by simp
  also have "\<dots> = sint w + 1"
    using lo assms by (intro signed_take_bit_int_eq_self) simp_all
  finally show ?thesis .
qed

lemma BaseType_dec:
  fixes w :: BaseType_t
  assumes "0 < sint w"
  shows "sint (w - 1) = sint w - 1"
proof -
  have hi: "sint w < 2 ^ (LENGTH(32) - 1)" by (rule sint_lt)
  have "sint (w - 1) = signed_take_bit (LENGTH(32) - 1) (sint w - sint (1::32 word))"
    by (rule sint_word_ariths)
  also have "\<dots> = signed_take_bit 31 (sint w - 1)" by simp
  also have "\<dots> = sint w - 1"
    using hi assms by (intro signed_take_bit_int_eq_self) simp_all
  finally show ?thesis .
qed

lemma BaseType_one:
  fixes w :: BaseType_t
  shows "w - 1 = 0 \<longleftrightarrow> sint w = 1"
proof
  assume "w - 1 = 0" then have "w = 1" by simp
  then show "sint w = 1" by simp
next
  assume a: "sint w = 1"
  have "w = word_of_int (sint w)" by simp
  then have "w = 1" unfolding a by simp
  then show "w - 1 = 0" by simp
qed


lemma scan_list_find:
  "\<forall>p\<in>set ps. h p \<noteq> None \<Longrightarrow>
   scan_list h f a ps = Some (List.find (\<lambda>p. map_option f (h p) = Some a) ps)"
  by (induction ps) auto

lemma find_SomeD:
  "List.find P ps = Some p \<Longrightarrow> p \<in> set ps \<and> P p"
  by (induction ps) (auto split: if_splits)

lemma find_None_iff': "List.find P ps = None \<longleftrightarrow> (\<forall>p\<in>set ps. \<not> P p)"
  by (induction ps) auto

lemma unsolicited_window:
  "2 \<le> unat (ucast (2 + (x AND 0x07 :: u32)) :: u8) \<and> unat (ucast (2 + (x AND 0x07 :: u32)) :: u8) \<le> 9"
proof -
  have "x AND 7 \<le> 7" by (rule word_and_le1)
  then have le: "unat (x AND 7) \<le> 7" by (simp add: word_le_nat_alt)
  then have "unat (2 + (x AND 7)) = 2 + unat (x AND 7)" by (simp add: unat_word_ariths)
  then show ?thesis using le by (simp add: unat_ucast_u32_u8)
qed

lemma xAdd_found:
  assumes "registry_ok s" "reportHeap s pNewEntry = Some new"
    "find_report s (report_addr new) = Some p"
  shows "\<exists>d. reportHeap s p = Some d \<and> report_addr d = report_addr new
      \<and> p \<in> set (xIGMP_ScheduleList s)
      \<and> xAddIGMPReportToList e pNewEntry s =
          Some (False, s\<lparr>reportHeap := (reportHeap s)(p \<mapsto> d\<lparr>xNumSockets := xNumSockets d + 1\<rparr>)\<rparr>)"
proof -
  have sc: "scan_list (reportHeap s) report_addr (report_addr new) (xIGMP_ScheduleList s) = Some (Some p)"
    using scan_list_find[of "xIGMP_ScheduleList s" "reportHeap s" report_addr "report_addr new"] assms(1,3)
    by (simp add: registry_ok_def find_report_def)
  have "p \<in> set (xIGMP_ScheduleList s) \<and> map_option report_addr (reportHeap s p) = Some (report_addr new)"
    using find_SomeD[OF assms(3)[unfolded find_report_def]] .
  then obtain d where d: "reportHeap s p = Some d" "report_addr d = report_addr new"
     "p \<in> set (xIGMP_ScheduleList s)" by auto
  show ?thesis using d sc assms(2) by (simp add: xAddIGMPReportToList_def)
qed

lemma xAdd_not_found:
  assumes "registry_ok s" "reportHeap s pNewEntry = Some new"
    "find_report s (report_addr new) = None"
  shows "\<exists>v. 2 \<le> unat v \<and> unat v \<le> 9
      \<and> xAddIGMPReportToList e pNewEntry s =
          Some (True, s\<lparr>reportHeap := (reportHeap s)(pNewEntry \<mapsto> new\<lparr>xNumSockets := 1, ucCountDown := v\<rparr>),
                        xIGMP_ScheduleList := xIGMP_ScheduleList s @ [pNewEntry],
                        rndCalls := Suc (rndCalls s)\<rparr>)"
proof -
  have sc: "scan_list (reportHeap s) report_addr (report_addr new) (xIGMP_ScheduleList s) = Some None"
    using scan_list_find[of "xIGMP_ScheduleList s" "reportHeap s" report_addr "report_addr new"] assms(1,3)
    by (simp add: registry_ok_def find_report_def)
  let ?x = "(case xApplicationGetRandomNumber e (rndCalls s) of
                            None \<Rightarrow> (of_nat pNewEntry :: u32)
                          | Some r \<Rightarrow> r)"
  let ?v = "ucast (2 + (?x AND 0x07)) :: u8"
  have "2 \<le> unat ?v \<and> unat ?v \<le> 9" by (rule unsolicited_window)
  moreover have "xAddIGMPReportToList e pNewEntry s =
          Some (True, s\<lparr>reportHeap := (reportHeap s)(pNewEntry \<mapsto> new\<lparr>xNumSockets := 1, ucCountDown := ?v\<rparr>),
                        xIGMP_ScheduleList := xIGMP_ScheduleList s @ [pNewEntry],
                        rndCalls := Suc (rndCalls s)\<rparr>)"
    using sc assms(2) by (simp add: xAddIGMPReportToList_def Let_def)
  ultimately show ?thesis by blast
qed




section \<open>Invariants of the schedule list and of the socket lists\<close>

lemma state_ok_registry_ok: "state_ok s \<Longrightarrow> registry_ok s"
  by (simp add: state_ok_def reg_inv_def registry_ok_def)

lemma reg_inv_cong:
  assumes "reg_inv ps h"
    and "\<And>p. p \<in> set ps \<Longrightarrow> map_option report_addr (h' p) = map_option report_addr (h p)"
  shows "reg_inv ps h'"
  unfolding reg_inv_def
proof (intro conjI ballI impI)
  show "distinct ps" using assms(1) by (simp add: reg_inv_def)
next
  fix p assume p: "p \<in> set ps"
  then have "h p \<noteq> None" using assms(1) by (simp add: reg_inv_def)
  then show "h' p \<noteq> None" using assms(2)[OF p] by (cases "h' p") auto
next
  fix p q assume p: "p \<in> set ps" and q: "q \<in> set ps"
    and e: "map_option report_addr (h' p) = map_option report_addr (h' q)"
  have "map_option report_addr (h p) = map_option report_addr (h q)"
    using e assms(2)[OF p] assms(2)[OF q] by simp
  then show "p = q" using assms(1) p q unfolding reg_inv_def by blast
qed

lemma reg_inv_bump:
  "reg_inv ps h \<Longrightarrow> h p = Some d \<Longrightarrow> report_addr d' = report_addr d \<Longrightarrow> reg_inv ps (h(p \<mapsto> d'))"
  by (erule reg_inv_cong) auto

lemma reg_inv_unlinked:
  "reg_inv ps h \<Longrightarrow> r \<notin> set ps \<Longrightarrow> reg_inv ps (h(r := x))"
  by (erule reg_inv_cong) auto

lemma reg_inv_append:
  assumes "reg_inv ps h" "r \<notin> set ps"
    "\<forall>p\<in>set ps. map_option report_addr (h p) \<noteq> Some (report_addr d)"
  shows "reg_inv (ps @ [r]) (h(r \<mapsto> d))"
proof -
  have 1: "reg_inv ps (h(r \<mapsto> d))" using assms(1,2) by (rule reg_inv_unlinked)
  have 2: "\<forall>p\<in>set ps. map_option report_addr ((h(r \<mapsto> d)) p) \<noteq> Some (report_addr d)"
    using assms(2,3) by auto
  have 3: "map_option report_addr ((h(r \<mapsto> d)) r) = Some (report_addr d)" by simp
  show ?thesis
    unfolding reg_inv_def
  proof (intro conjI ballI impI)
    show "distinct (ps @ [r])" using 1 assms(2) by (simp add: reg_inv_def)
  next
    fix p assume "p \<in> set (ps @ [r])"
    then show "(h(r \<mapsto> d)) p \<noteq> None" using 1 by (auto simp: reg_inv_def)
  next
    fix p q assume p: "p \<in> set (ps @ [r])" and q: "q \<in> set (ps @ [r])"
      and e: "map_option report_addr ((h(r \<mapsto> d)) p) = map_option report_addr ((h(r \<mapsto> d)) q)"
    show "p = q"
    proof (cases "p = r")
      case True
      then have "q \<notin> set ps" using e 2 3 by metis
      then show ?thesis using q True by simp
    next
      case pf: False
      then have pp: "p \<in> set ps" using p by simp
      show ?thesis
      proof (cases "q = r")
        case True
        then have "p \<notin> set ps" using e 2 3 by metis
        then show ?thesis using pp by simp
      next
        case False
        then have "q \<in> set ps" using q by simp
        then show ?thesis using 1 pp e unfolding reg_inv_def by blast
      qed
    qed
  qed
qed

lemma reg_inv_remove:
  assumes "reg_inv ps h"
  shows "reg_inv (remove1 p ps) (h(p := None))"
proof -
  have d: "distinct ps" using assms by (simp add: reg_inv_def)
  have s: "set (remove1 p ps) = set ps - {p}" using d by simp
  show ?thesis unfolding reg_inv_def s
  proof (intro conjI ballI impI)
    show "distinct (remove1 p ps)" using d by simp
  next
    fix q assume "q \<in> set ps - {p}"
    then show "(h(p := None)) q \<noteq> None" using assms by (auto simp: reg_inv_def)
  next
    fix q q' assume q: "q \<in> set ps - {p}" and q': "q' \<in> set ps - {p}"
      and e: "map_option report_addr ((h(p := None)) q) = map_option report_addr ((h(p := None)) q')"
    have "map_option report_addr (h q) = map_option report_addr (h q')" using q q' e by auto
    then show "q = q'" using assms q q' unfolding reg_inv_def by blast
  qed
qed

lemma sock_inv_linked:
  "sock_inv L h \<Longrightarrow> g \<in> set (L k) \<Longrightarrow> \<exists>gd. h g = Some gd \<and> pxSocket gd = k"
  unfolding sock_inv_def by blast

lemma sock_inv_cong:
  assumes "sock_inv L h"
    and "\<And>k g. g \<in> set (L k) \<Longrightarrow>
           map_option group_addr (h' g) = map_option group_addr (h g)
           \<and> map_option pxSocket (h' g) = map_option pxSocket (h g)"
  shows "sock_inv L h'"
  unfolding sock_inv_def
proof (intro allI conjI ballI impI)
  fix k
  show "distinct (L k)" using assms(1) by (simp add: sock_inv_def)
next
  fix k g assume g: "g \<in> set (L k)"
  then obtain gd where "h g = Some gd" "pxSocket gd = k"
    using sock_inv_linked[OF assms(1)] by blast
  then show "\<exists>gd. h' g = Some gd \<and> pxSocket gd = k"
    using assms(2)[OF g] by (cases "h' g") auto
next
  fix k g g' assume g: "g \<in> set (L k)" and g': "g' \<in> set (L k)"
    and e: "map_option group_addr (h' g) = map_option group_addr (h' g')"
  have "map_option group_addr (h g) = map_option group_addr (h g')"
    using e assms(2)[OF g] assms(2)[OF g'] by simp
  then show "g = g'" using assms(1) g g' unfolding sock_inv_def by blast
qed

lemma sock_inv_unlinked_all:
  assumes "sock_inv L h" "h g = Some gd" "g \<notin> set (L (pxSocket gd))"
  shows "g \<notin> set (L k)"
proof
  assume in_k: "g \<in> set (L k)"
  then obtain gd' where "h g = Some gd'" "pxSocket gd' = k"
    using sock_inv_linked[OF assms(1)] by blast
  then show False using assms(2,3) in_k by auto
qed

lemma sock_inv_unallocated:
  assumes "sock_inv L h" "h g = None"
  shows "g \<notin> set (L k)"
  using sock_inv_linked[OF assms(1), of g k] assms(2) by auto

lemma sock_inv_unlinked:
  "sock_inv L h \<Longrightarrow> (\<And>k. g \<notin> set (L k)) \<Longrightarrow> sock_inv L (h(g := x))"
  by (erule sock_inv_cong) auto

lemma sock_inv_append:
  assumes "sock_inv L h" "h g = Some gd" "pxSocket gd = k" "g \<notin> set (L k)"
    "\<forall>q\<in>set (L k). map_option group_addr (h q) \<noteq> Some (group_addr gd)"
  shows "sock_inv (L(k := L k @ [g])) h"
  unfolding sock_inv_def
proof (intro allI)
  fix k'
  let ?L = "(L(k := L k @ [g])) k'"
  have old: "distinct (L k')" "\<forall>q\<in>set (L k'). \<exists>gd. h q = Some gd \<and> pxSocket gd = k'"
      "\<forall>q\<in>set (L k'). \<forall>q'\<in>set (L k').
                map_option group_addr (h q) = map_option group_addr (h q') \<longrightarrow> q = q'"
    using assms(1) unfolding sock_inv_def by blast+
  show "distinct ?L \<and> (\<forall>q\<in>set ?L. \<exists>gd. h q = Some gd \<and> pxSocket gd = k')
     \<and> (\<forall>q\<in>set ?L. \<forall>q'\<in>set ?L.
                map_option group_addr (h q) = map_option group_addr (h q') \<longrightarrow> q = q')"
  proof (cases "k' = k")
    case False
    then show ?thesis using old by simp
  next
    case True
    have L: "?L = L k @ [g]" using True by simp
    have ga: "map_option group_addr (h g) = Some (group_addr gd)" using assms(2) by simp
    have 1: "distinct ?L" using old(1) assms(4) True by simp
    have 2: "\<forall>q\<in>set ?L. \<exists>gd. h q = Some gd \<and> pxSocket gd = k'"
      using old(2) assms(2,3) True by auto
    have 3: "\<forall>q\<in>set ?L. \<forall>q'\<in>set ?L.
                map_option group_addr (h q) = map_option group_addr (h q') \<longrightarrow> q = q'"
    proof (intro ballI impI)
      fix q q' assume q: "q \<in> set ?L" and q': "q' \<in> set ?L"
        and e: "map_option group_addr (h q) = map_option group_addr (h q')"
      show "q = q'"
      proof (cases "q = g")
        case qg: True
        then have "q' \<notin> set (L k)" using e ga assms(5) by metis
        then show ?thesis using q' qg L by simp
      next
        case False
        then have qq: "q \<in> set (L k)" using q L by simp
        show ?thesis
        proof (cases "q' = g")
          case True
          then have "q \<notin> set (L k)" using e ga assms(5) by metis
          then show ?thesis using qq by simp
        next
          case False
          then have "q' \<in> set (L k)" using q' L by simp
          then show ?thesis using old(3) qq e True by blast
        qed
      qed
    qed
    show ?thesis using 1 2 3 by blast
  qed
qed

lemma sock_inv_remove:
  assumes "sock_inv L h" "g \<in> set (L k)"
  shows "sock_inv (L(k := remove1 g (L k))) (h(g := None))"
  unfolding sock_inv_def
proof (intro allI)
  fix k'
  have dk: "distinct (L k')" and al: "\<forall>q\<in>set (L k'). \<exists>gd. h q = Some gd \<and> pxSocket gd = k'"
    and inj: "\<forall>q\<in>set (L k'). \<forall>q'\<in>set (L k').
                map_option group_addr (h q) = map_option group_addr (h q') \<longrightarrow> q = q'"
    using assms(1) unfolding sock_inv_def by blast+
  have gk: "g \<notin> set (L k')" if "k' \<noteq> k"
  proof
    assume "g \<in> set (L k')"
    then obtain gd where 1: "h g = Some gd" "pxSocket gd = k'" using al by blast
    obtain gd' where 2: "h g = Some gd'" "pxSocket gd' = k"
      using sock_inv_linked[OF assms] by blast
    show False using 1 2 that by auto
  qed
  let ?L = "(L(k := remove1 g (L k))) k'"
  have sub: "set ?L \<subseteq> set (L k') - {g}"
  proof (cases "k' = k")
    case True
    then show ?thesis using dk by auto
  next
    case False
    then show ?thesis using gk by auto
  qed
  have d: "distinct ?L" using dk by (cases "k' = k") auto
  have a: "\<forall>q\<in>set ?L. \<exists>gd. (h(g := None)) q = Some gd \<and> pxSocket gd = k'"
    using sub al by auto
  have i: "\<forall>q\<in>set ?L. \<forall>q'\<in>set ?L.
     map_option group_addr ((h(g := None)) q) = map_option group_addr ((h(g := None)) q') \<longrightarrow> q = q'"
  proof (intro ballI impI)
    fix q q' assume q: "q \<in> set ?L" and q': "q' \<in> set ?L"
      and e: "map_option group_addr ((h(g := None)) q) = map_option group_addr ((h(g := None)) q')"
    have "q \<noteq> g" "q' \<noteq> g" "q \<in> set (L k')" "q' \<in> set (L k')" using q q' sub by auto
    then show "q = q'" using e inj by auto
  qed
  show "distinct ?L \<and> (\<forall>q\<in>set ?L. \<exists>gd. (h(g := None)) q = Some gd \<and> pxSocket gd = k')
     \<and> (\<forall>q\<in>set ?L. \<forall>q'\<in>set ?L.
     map_option group_addr ((h(g := None)) q) = map_option group_addr ((h(g := None)) q') \<longrightarrow> q = q')"
    using d a i by blast
qed

section \<open>vRemoveIGMPReportFromList and vModifyMulticastMembership preserve the invariants\<close>

lemma find_report_None:
  "find_report s a = None \<longleftrightarrow>
     (\<forall>p\<in>set (xIGMP_ScheduleList s). map_option report_addr (reportHeap s p) \<noteq> Some a)"
  by (simp add: find_report_def find_None_iff')

lemma find_report_Some:
  "find_report s a = Some p \<Longrightarrow>
     p \<in> set (xIGMP_ScheduleList s) \<and> map_option report_addr (reportHeap s p) = Some a"
  unfolding find_report_def by (rule find_SomeD)

lemma find_group_None:
  "find_group s k a = None \<longleftrightarrow>
     (\<forall>g\<in>set (xMulticastGroupsList s k). map_option group_addr (groupHeap s g) \<noteq> Some a)"
  by (simp add: find_group_def find_None_iff')

lemma find_group_Some:
  "find_group s k a = Some g \<Longrightarrow>
     g \<in> set (xMulticastGroupsList s k) \<and> map_option group_addr (groupHeap s g) = Some a"
  unfolding find_group_def by (rule find_SomeD)

lemma vPortFree_report_Some:
  "reportHeap s p = Some d \<Longrightarrow>
   vPortFree_report p s = Some (s\<lparr>reportHeap := (reportHeap s)(p := None)\<rparr>)"
  by (simp add: vPortFree_report_def)

lemma vPortFree_group_Some:
  "groupHeap s p = Some d \<Longrightarrow>
   vPortFree_group p s = Some (s\<lparr>groupHeap := (groupHeap s)(p := None)\<rparr>)"
  by (simp add: vPortFree_group_def)

lemma vRemove_none:
  assumes "registry_ok s" "find_report s (imr_multiaddr m) = None"
  shows "vRemoveIGMPReportFromList m s = Some s"
proof -
  have "scan_list (reportHeap s) report_addr (imr_multiaddr m) (xIGMP_ScheduleList s) = Some None"
    using scan_list_find[of "xIGMP_ScheduleList s" "reportHeap s" report_addr "imr_multiaddr m"] assms
    by (simp add: registry_ok_def find_report_def)
  then show ?thesis by (simp add: vRemoveIGMPReportFromList_def)
qed

lemma vRemove_found:
  assumes "registry_ok s" "find_report s (imr_multiaddr m) = Some p"
  shows "\<exists>d. reportHeap s p = Some d \<and> report_addr d = imr_multiaddr m
     \<and> p \<in> set (xIGMP_ScheduleList s)
     \<and> vRemoveIGMPReportFromList m s =
         Some (if (if 0 < sint (xNumSockets d) then xNumSockets d - 1 else xNumSockets d) = 0
               then s\<lparr>reportHeap := (reportHeap s)(p := None),
                      xIGMP_ScheduleList := remove1 p (xIGMP_ScheduleList s)\<rparr>
               else s\<lparr>reportHeap := (reportHeap s)
                        (p \<mapsto> d\<lparr>xNumSockets := (if 0 < sint (xNumSockets d) then xNumSockets d - 1
                                                 else xNumSockets d)\<rparr>)\<rparr>)"
proof -
  have sc: "scan_list (reportHeap s) report_addr (imr_multiaddr m) (xIGMP_ScheduleList s) = Some (Some p)"
    using scan_list_find[of "xIGMP_ScheduleList s" "reportHeap s" report_addr "imr_multiaddr m"] assms
    by (simp add: registry_ok_def find_report_def)
  obtain d where d: "reportHeap s p = Some d" "report_addr d = imr_multiaddr m"
      "p \<in> set (xIGMP_ScheduleList s)"
    using find_report_Some[OF assms(2)] by auto
  show ?thesis using d sc
    by (auto simp: vRemoveIGMPReportFromList_def Let_def vPortFree_report_def)
qed

lemma vRemove_reg_inv:
  assumes "reg_inv (xIGMP_ScheduleList s) (reportHeap s)"
  shows "\<exists>s'. vRemoveIGMPReportFromList m s = Some s'
     \<and> reg_inv (xIGMP_ScheduleList s') (reportHeap s')
     \<and> xMulticastGroupsList s' = xMulticastGroupsList s
     \<and> groupHeap s' = groupHeap s \<and> events s' = events s"
proof -
  have ok: "registry_ok s" using assms by (simp add: reg_inv_def registry_ok_def)
  show ?thesis
  proof (cases "find_report s (imr_multiaddr m)")
    case None
    then show ?thesis using vRemove_none[OF ok None] assms by simp
  next
    case (Some p)
    obtain d where d: "reportHeap s p = Some d"
      and eq: "vRemoveIGMPReportFromList m s =
         Some (if (if 0 < sint (xNumSockets d) then xNumSockets d - 1 else xNumSockets d) = 0
               then s\<lparr>reportHeap := (reportHeap s)(p := None),
                      xIGMP_ScheduleList := remove1 p (xIGMP_ScheduleList s)\<rparr>
               else s\<lparr>reportHeap := (reportHeap s)
                        (p \<mapsto> d\<lparr>xNumSockets := (if 0 < sint (xNumSockets d) then xNumSockets d - 1
                                                 else xNumSockets d)\<rparr>)\<rparr>)"
      using vRemove_found[OF ok Some] by blast
    have 1: "reg_inv (remove1 p (xIGMP_ScheduleList s)) ((reportHeap s)(p := None))"
      using assms by (rule reg_inv_remove)
    have 2: "reg_inv (xIGMP_ScheduleList s) ((reportHeap s)(p \<mapsto> d\<lparr>xNumSockets := n\<rparr>))" for n
      using assms d by (rule reg_inv_bump) (simp add: report_addr_def)
    show ?thesis using eq 1 2 by (simp split: if_splits)
  qed
qed

lemma xAdd_reg_inv:
  assumes "reg_inv (xIGMP_ScheduleList s) (reportHeap s)" "reportHeap s r = Some rd"
    "r \<notin> set (xIGMP_ScheduleList s)"
  shows "\<exists>b s'. xAddIGMPReportToList e r s = Some (b, s')
     \<and> xMulticastGroupsList s' = xMulticastGroupsList s
     \<and> groupHeap s' = groupHeap s \<and> events s' = events s
     \<and> reportHeap s' r \<noteq> None
     \<and> (b \<longrightarrow> reg_inv (xIGMP_ScheduleList s') (reportHeap s'))
     \<and> (\<not> b \<longrightarrow> reg_inv (xIGMP_ScheduleList s') ((reportHeap s')(r := None)))"
proof -
  have ok: "registry_ok s" using assms by (simp add: reg_inv_def registry_ok_def)
  show ?thesis
  proof (cases "find_report s (report_addr rd)")
    case None
    obtain v where eq: "xAddIGMPReportToList e r s =
          Some (True, s\<lparr>reportHeap := (reportHeap s)(r \<mapsto> rd\<lparr>xNumSockets := 1, ucCountDown := v\<rparr>),
                        xIGMP_ScheduleList := xIGMP_ScheduleList s @ [r],
                        rndCalls := Suc (rndCalls s)\<rparr>)"
      using xAdd_not_found[OF ok assms(2) None, of e] by blast
    have "report_addr (rd\<lparr>xNumSockets := 1, ucCountDown := v\<rparr>) = report_addr rd"
      by (simp add: report_addr_def)
    then have "reg_inv (xIGMP_ScheduleList s @ [r])
           ((reportHeap s)(r \<mapsto> rd\<lparr>xNumSockets := 1, ucCountDown := v\<rparr>))"
      using reg_inv_append[OF assms(1,3), of "rd\<lparr>xNumSockets := 1, ucCountDown := v\<rparr>"] None
      by (simp add: find_report_None)
    then show ?thesis using eq by auto
  next
    case (Some p)
    obtain d where d: "reportHeap s p = Some d" "p \<in> set (xIGMP_ScheduleList s)"
      and eq: "xAddIGMPReportToList e r s =
          Some (False, s\<lparr>reportHeap := (reportHeap s)(p \<mapsto> d\<lparr>xNumSockets := xNumSockets d + 1\<rparr>)\<rparr>)"
      using xAdd_found[OF ok assms(2) Some, of e] by blast
    have pr: "p \<noteq> r" using d(2) assms(3) by auto
    have "reg_inv (xIGMP_ScheduleList s) ((reportHeap s)(p \<mapsto> d\<lparr>xNumSockets := xNumSockets d + 1\<rparr>))"
      using assms(1) d(1) by (rule reg_inv_bump) (simp add: report_addr_def)
    then have "reg_inv (xIGMP_ScheduleList s)
       (((reportHeap s)(p \<mapsto> d\<lparr>xNumSockets := xNumSockets d + 1\<rparr>))(r := None))"
      using assms(3) by (rule reg_inv_unlinked)
    then show ?thesis using eq pr assms(2) by auto
  qed
qed

lemma locate_group_eq:
  assumes "\<forall>q\<in>set (xMulticastGroupsList s (pxSocket gd)). groupHeap s q \<noteq> None"
  shows "locate_group e g gd bAction s =
     Some (case find_group s (pxSocket gd) (group_addr gd) of
             None \<Rightarrow> (None, True, False, s)
           | Some g0 \<Rightarrow>
               if eSocketOptDropMembership e = bAction
               then (Some g0, g \<noteq> g0, True,
                     s\<lparr>xMulticastGroupsList := (xMulticastGroupsList s)
                         (pxSocket gd := remove1 g0 (xMulticastGroupsList s (pxSocket gd)))\<rparr>)
               else (Some g0, True, False, s))"
  using scan_list_find[OF assms, of group_addr "group_addr gd"]
  by (simp add: locate_group_def find_group_def split: option.splits)

lemma sock_inv_allocated:
  "sock_inv L h \<Longrightarrow> \<forall>q\<in>set (L k). h q \<noteq> None"
  using sock_inv_linked by fastforce

lemma add_membership_new:
  assumes ok: "state_ok s" and g: "groupHeap s g = Some gd"
    and un: "g \<notin> set (xMulticastGroupsList s (pxSocket gd))"
    and r: "pxIGMPReportDesc gd = 0
            \<or> (reportHeap s (pxIGMPReportDesc gd) \<noteq> None
                \<and> pxIGMPReportDesc gd \<notin> set (xIGMP_ScheduleList s))"
    and nf: "find_group s (pxSocket gd) (group_addr gd) = None"
  shows "\<exists>s'. add_membership e g gd None b s = Some (False, s') \<and> state_ok s'
     \<and> events s' = events s @
          [EMAC_AddMulticastAddress (vSetMultiCastIPv4MacAddress e (group_addr gd))]"
proof -
  let ?k = "pxSocket gd"
  let ?L = "(xMulticastGroupsList s)(?k := xMulticastGroupsList s ?k @ [g])"
  let ?s1 = "s\<lparr>xMulticastGroupsList := ?L,
               events := events s @
                 [EMAC_AddMulticastAddress (vSetMultiCastIPv4MacAddress e (group_addr gd))]\<rparr>"
  have reg: "reg_inv (xIGMP_ScheduleList s) (reportHeap s)"
    and sock: "sock_inv (xMulticastGroupsList s) (groupHeap s)"
    using ok by (simp_all add: state_ok_def)
  have sock1: "sock_inv ?L (groupHeap s)"
    using sock_inv_append[OF sock g refl un] nf by (simp add: find_group_None)
  show ?thesis
  proof (cases "pxIGMPReportDesc gd = 0")
    case True
    have "add_membership e g gd None b s = Some (False, ?s1)"
      using True by (simp add: add_membership_def)
    moreover have "state_ok ?s1" using reg sock1 by (simp add: state_ok_def)
    ultimately show ?thesis by simp
  next
    case False
    let ?r = "pxIGMPReportDesc gd"
    obtain rd where rd: "reportHeap s ?r = Some rd" and rn: "?r \<notin> set (xIGMP_ScheduleList s)"
      using r False by auto
    have reg1: "reg_inv (xIGMP_ScheduleList ?s1) (reportHeap ?s1)" using reg by simp
    have rd1: "reportHeap ?s1 ?r = Some rd" using rd by simp
    have rn1: "?r \<notin> set (xIGMP_ScheduleList ?s1)" using rn by simp
    obtain c s2 where x: "xAddIGMPReportToList e ?r ?s1 = Some (c, s2)"
      and f: "xMulticastGroupsList s2 = ?L" "groupHeap s2 = groupHeap s"
         "events s2 = events s @
            [EMAC_AddMulticastAddress (vSetMultiCastIPv4MacAddress e (group_addr gd))]"
      and al: "reportHeap s2 ?r \<noteq> None"
      and c1: "c \<longrightarrow> reg_inv (xIGMP_ScheduleList s2) (reportHeap s2)"
      and c2: "\<not> c \<longrightarrow> reg_inv (xIGMP_ScheduleList s2) ((reportHeap s2)(?r := None))"
      using xAdd_reg_inv[OF reg1 rd1 rn1, of e] by auto
    show ?thesis
    proof (cases c)
      case True
      have "add_membership e g gd None b s = Some (False, s2)"
        using False x True by (simp add: add_membership_def)
      moreover have "state_ok s2" using c1 True f sock1 by (simp add: state_ok_def)
      ultimately show ?thesis using f by simp
    next
      case nc: False
      let ?s3 = "s2\<lparr>reportHeap := (reportHeap s2)(?r := None)\<rparr>"
      let ?s4 = "?s3\<lparr>groupHeap := (groupHeap ?s3)(g \<mapsto> gd\<lparr>pxIGMPReportDesc := 0\<rparr>)\<rparr>"
      obtain d2 where "reportHeap s2 ?r = Some d2" using al by auto
      then have fr: "vPortFree_report ?r s2 = Some ?s3" by (rule vPortFree_report_Some)
      have eq: "add_membership e g gd None b s = Some (False, ?s4)"
        using False x nc fr by (simp add: add_membership_def)
      have "sock_inv ?L ((groupHeap s)(g \<mapsto> gd\<lparr>pxIGMPReportDesc := 0\<rparr>))"
        using sock1 by (rule sock_inv_cong) (auto simp: g group_addr_def)
      then have "state_ok ?s4" using c2 nc f by (simp add: state_ok_def)
      then show ?thesis using eq f by simp
    qed
  qed
qed

lemma add_membership_dup:
  assumes ok: "state_ok s" and g: "groupHeap s g = Some gd"
    and un: "g \<notin> set (xMulticastGroupsList s (pxSocket gd))"
    and r: "pxIGMPReportDesc gd = 0
            \<or> (reportHeap s (pxIGMPReportDesc gd) \<noteq> None
                \<and> pxIGMPReportDesc gd \<notin> set (xIGMP_ScheduleList s))"
  shows "\<exists>s'. add_membership e g gd (Some g0) True s = Some (True, s')
     \<and> groupHeap s' g \<noteq> None
     \<and> state_ok (s'\<lparr>groupHeap := (groupHeap s')(g := None)\<rparr>)
     \<and> events s' = events s"
proof -
  have reg: "reg_inv (xIGMP_ScheduleList s) (reportHeap s)"
    and sock: "sock_inv (xMulticastGroupsList s) (groupHeap s)"
    using ok by (simp_all add: state_ok_def)
  have unl: "g \<notin> set (xMulticastGroupsList s k)" for k
    using sock_inv_unlinked_all[OF sock g un] .
  have sock': "sock_inv (xMulticastGroupsList s) ((groupHeap s)(g := None))"
    using sock unl by (rule sock_inv_unlinked)
  show ?thesis
  proof (cases "pxIGMPReportDesc gd = 0")
    case True
    have "add_membership e g gd (Some g0) True s = Some (True, s)"
      using True by (simp add: add_membership_def)
    moreover have "state_ok (s\<lparr>groupHeap := (groupHeap s)(g := None)\<rparr>)"
      using reg sock' by (simp add: state_ok_def)
    ultimately show ?thesis using g by simp
  next
    case False
    let ?r = "pxIGMPReportDesc gd"
    obtain rd where rd: "reportHeap s ?r = Some rd" and rn: "?r \<notin> set (xIGMP_ScheduleList s)"
      using r False by auto
    let ?s1 = "s\<lparr>reportHeap := (reportHeap s)(?r := None)\<rparr>"
    let ?s2 = "?s1\<lparr>groupHeap := (groupHeap ?s1)(g \<mapsto> gd\<lparr>pxIGMPReportDesc := 0\<rparr>)\<rparr>"
    have fr: "vPortFree_report ?r s = Some ?s1" using rd by (rule vPortFree_report_Some)
    have eq: "add_membership e g gd (Some g0) True s = Some (True, ?s2)"
      using False fr by (simp add: add_membership_def)
    have "reg_inv (xIGMP_ScheduleList s) ((reportHeap s)(?r := None))"
      using reg rn by (rule reg_inv_unlinked)
    then have "state_ok (?s2\<lparr>groupHeap := (groupHeap ?s2)(g := None)\<rparr>)"
      using sock' by (simp add: state_ok_def)
    then show ?thesis using eq by simp
  qed
qed

lemma vRemove_frame_update:
  "vRemoveIGMPReportFromList m (s\<lparr>xMulticastGroupsList := L, events := ev\<rparr>)
     = map_option (\<lambda>s'. s'\<lparr>xMulticastGroupsList := L, events := ev\<rparr>)
         (vRemoveIGMPReportFromList m s)"
proof (cases "scan_list (reportHeap s) report_addr (imr_multiaddr m) (xIGMP_ScheduleList s)")
  case None
  then show ?thesis by (simp add: vRemoveIGMPReportFromList_def)
next
  case (Some found)
  show ?thesis
  proof (cases found)
    case None
    then show ?thesis using Some by (simp add: vRemoveIGMPReportFromList_def)
  next
    case (Some p)
    show ?thesis
    proof (cases "reportHeap s p")
      case None
      then show ?thesis using Some \<open>scan_list _ _ _ _ = Some found\<close>
        by (simp add: vRemoveIGMPReportFromList_def)
    next
      case (Some d)
      then show ?thesis using \<open>found = Some p\<close> \<open>scan_list _ _ _ _ = Some found\<close>
        by (simp add: vRemoveIGMPReportFromList_def vPortFree_report_def Let_def)
    qed
  qed
qed

lemma drop_membership_found:
  assumes reg: "reg_inv (xIGMP_ScheduleList s) (reportHeap s)"
    and g0: "groupHeap s g0 = Some gd0"
  shows "\<exists>s'. drop_membership e gd (Some g0) s = Some s'
     \<and> reg_inv (xIGMP_ScheduleList s') (reportHeap s')
     \<and> xMulticastGroupsList s' = xMulticastGroupsList s
     \<and> groupHeap s' = groupHeap s
     \<and> events s' = events s @
          [EMAC_RemoveMulticastAddress (vSetMultiCastIPv4MacAddress e (group_addr gd))]"
proof -
  let ?s1 = "s\<lparr>events := events s @
          [EMAC_RemoveMulticastAddress (vSetMultiCastIPv4MacAddress e (group_addr gd))]\<rparr>"
  have "reg_inv (xIGMP_ScheduleList ?s1) (reportHeap ?s1)" using reg by simp
  then obtain s' where "vRemoveIGMPReportFromList (MCastGroupDesc_t.mreq gd0) ?s1 = Some s'"
     "reg_inv (xIGMP_ScheduleList s') (reportHeap s')"
     "xMulticastGroupsList s' = xMulticastGroupsList ?s1"
     "groupHeap s' = groupHeap ?s1" "events s' = events ?s1"
    using vRemove_reg_inv[of ?s1 "MCastGroupDesc_t.mreq gd0"] by blast
  then show ?thesis using g0 by (simp add: drop_membership_def)
qed

lemma vModify_invalid:
  "eSocketOptAddMembership e \<noteq> bAction \<Longrightarrow> eSocketOptDropMembership e \<noteq> bAction \<Longrightarrow>
   vModifyMulticastMembership e g bAction s = Some s"
  by (simp add: vModifyMulticastMembership_def)

lemma vModify_add_ok:
  assumes env: "env_ok e" and ok: "state_ok s" and own: "caller_owned g s"
  shows "\<exists>s'. vModifyMulticastMembership e g (eSocketOptAddMembership e) s = Some s' \<and> state_ok s'"
proof -
  obtain gd where g: "groupHeap s g = Some gd"
    and un: "g \<notin> set (xMulticastGroupsList s (pxSocket gd))"
    and r: "pxIGMPReportDesc gd = 0
            \<or> (reportHeap s (pxIGMPReportDesc gd) \<noteq> None
                \<and> pxIGMPReportDesc gd \<notin> set (xIGMP_ScheduleList s))"
    using own unfolding caller_owned_def by blast
  have sock: "sock_inv (xMulticastGroupsList s) (groupHeap s)" using ok by (simp add: state_ok_def)
  have ne: "eSocketOptDropMembership e \<noteq> eSocketOptAddMembership e" using env by (simp add: env_ok_def)
  have loc: "locate_group e g gd (eSocketOptAddMembership e) s =
     Some (case find_group s (pxSocket gd) (group_addr gd) of
             None \<Rightarrow> (None, True, False, s)
           | Some g0 \<Rightarrow> (Some g0, True, False, s))"
    using locate_group_eq[where s=s and gd=gd and e=e and g=g and bAction="eSocketOptAddMembership e", OF sock_inv_allocated[OF sock]] ne
    by (simp split: option.splits)
  show ?thesis
  proof (cases "find_group s (pxSocket gd) (group_addr gd)")
    case None
    obtain s' where a: "add_membership e g gd None True s = Some (False, s')" and s': "state_ok s'"
      using add_membership_new[OF ok g un r None, of e True] by blast
    have "vModifyMulticastMembership e g (eSocketOptAddMembership e) s = Some s'"
      using g loc None a by (simp add: vModifyMulticastMembership_def)
    then show ?thesis using s' by simp
  next
    case (Some g0)
    obtain s' where a: "add_membership e g gd (Some g0) True s = Some (True, s')"
      and al: "groupHeap s' g \<noteq> None"
      and s': "state_ok (s'\<lparr>groupHeap := (groupHeap s')(g := None)\<rparr>)"
      using add_membership_dup[OF ok g un r, of e g0] by blast
    obtain x where "groupHeap s' g = Some x" using al by auto
    then have fr: "vPortFree_group g s' = Some (s'\<lparr>groupHeap := (groupHeap s')(g := None)\<rparr>)"
      by (rule vPortFree_group_Some)
    have "vModifyMulticastMembership e g (eSocketOptAddMembership e) s
        = Some (s'\<lparr>groupHeap := (groupHeap s')(g := None)\<rparr>)"
      using g loc Some a fr by (simp add: vModifyMulticastMembership_def)
    then show ?thesis using s' by simp
  qed
qed

lemma vModify_drop_absent_ok:
  assumes env: "env_ok e" and ok: "state_ok s" and g: "groupHeap s g = Some gd"
    and un: "g \<notin> set (xMulticastGroupsList s (pxSocket gd))"
    and nf: "find_group s (pxSocket gd) (group_addr gd) = None"
  shows "vModifyMulticastMembership e g (eSocketOptDropMembership e) s
           = Some (s\<lparr>groupHeap := (groupHeap s)(g := None)\<rparr>)
     \<and> state_ok (s\<lparr>groupHeap := (groupHeap s)(g := None)\<rparr>)"
proof -
  have reg: "reg_inv (xIGMP_ScheduleList s) (reportHeap s)"
    and sock: "sock_inv (xMulticastGroupsList s) (groupHeap s)"
    using ok by (simp_all add: state_ok_def)
  have ne: "eSocketOptAddMembership e \<noteq> eSocketOptDropMembership e" using env by (simp add: env_ok_def)
  have loc: "locate_group e g gd (eSocketOptDropMembership e) s = Some (None, True, False, s)"
    using locate_group_eq[where s=s and gd=gd and e=e and g=g and bAction="eSocketOptDropMembership e", OF sock_inv_allocated[OF sock]] nf
    by simp
  have fr: "vPortFree_group g s = Some (s\<lparr>groupHeap := (groupHeap s)(g := None)\<rparr>)"
    using g by (rule vPortFree_group_Some)
  have eq: "vModifyMulticastMembership e g (eSocketOptDropMembership e) s
           = Some (s\<lparr>groupHeap := (groupHeap s)(g := None)\<rparr>)"
    using g loc ne fr by (simp add: vModifyMulticastMembership_def drop_membership_def)
  have unl: "g \<notin> set (xMulticastGroupsList s k)" for k
    using sock_inv_unlinked_all[OF sock g un] .
  have "sock_inv (xMulticastGroupsList s) ((groupHeap s)(g := None))"
    using sock unl by (rule sock_inv_unlinked)
  then show ?thesis using eq reg by (simp add: state_ok_def)
qed

lemma vModify_drop_found_ok:
  assumes env: "env_ok e" and ok: "state_ok s" and g: "groupHeap s g = Some gd"
    and f: "find_group s (pxSocket gd) (group_addr gd) = Some g0"
    and own: "g = g0 \<or> g \<notin> set (xMulticastGroupsList s (pxSocket gd))"
  shows "\<exists>s' s2 gd0. vModifyMulticastMembership e g (eSocketOptDropMembership e) s = Some s'
     \<and> state_ok s'
     \<and> groupHeap s g0 = Some gd0 \<and> group_addr gd0 = group_addr gd
     \<and> vRemoveIGMPReportFromList (MCastGroupDesc_t.mreq gd0) s = Some s2
     \<and> s' = s2\<lparr>xMulticastGroupsList := (xMulticastGroupsList s)
                  (pxSocket gd := remove1 g0 (xMulticastGroupsList s (pxSocket gd))),
               groupHeap := ((groupHeap s)(g := None))(g0 := None),
               events := events s @
                 [EMAC_RemoveMulticastAddress (vSetMultiCastIPv4MacAddress e (group_addr gd))]\<rparr>"
proof -
  let ?k = "pxSocket gd"
  let ?L = "(xMulticastGroupsList s)(?k := remove1 g0 (xMulticastGroupsList s ?k))"
  let ?ev = "events s @
                 [EMAC_RemoveMulticastAddress (vSetMultiCastIPv4MacAddress e (group_addr gd))]"
  have reg: "reg_inv (xIGMP_ScheduleList s) (reportHeap s)"
    and sock: "sock_inv (xMulticastGroupsList s) (groupHeap s)"
    using ok by (simp_all add: state_ok_def)
  have ne: "eSocketOptAddMembership e \<noteq> eSocketOptDropMembership e" using env by (simp add: env_ok_def)
  have g0in: "g0 \<in> set (xMulticastGroupsList s ?k)"
    and g0a: "map_option group_addr (groupHeap s g0) = Some (group_addr gd)"
    using find_group_Some[OF f] by auto
  obtain gd0 where gd0: "groupHeap s g0 = Some gd0" "group_addr gd0 = group_addr gd"
    using g0a by auto
  let ?s1 = "s\<lparr>xMulticastGroupsList := ?L\<rparr>"
  have loc: "locate_group e g gd (eSocketOptDropMembership e) s = Some (Some g0, g \<noteq> g0, True, ?s1)"
    using locate_group_eq[where s=s and gd=gd and e=e and g=g and bAction="eSocketOptDropMembership e", OF sock_inv_allocated[OF sock]] f
    by simp
  have reg1: "reg_inv (xIGMP_ScheduleList ?s1) (reportHeap ?s1)" using reg by simp
  have gd01: "groupHeap ?s1 g0 = Some gd0" using gd0 by simp
  obtain s2' where d: "drop_membership e gd (Some g0) ?s1 = Some s2'"
    and r2: "reg_inv (xIGMP_ScheduleList s2') (reportHeap s2')"
    and f2: "xMulticastGroupsList s2' = ?L" "groupHeap s2' = groupHeap s" "events s2' = ?ev"
    using drop_membership_found[OF reg1 gd01, of e gd] by auto
  obtain s2 where v: "vRemoveIGMPReportFromList (MCastGroupDesc_t.mreq gd0) s = Some s2"
    using vRemove_reg_inv[OF reg] by blast
  have rel: "s2' = s2\<lparr>xMulticastGroupsList := ?L, events := ?ev\<rparr>"
  proof -
    have "vRemoveIGMPReportFromList (MCastGroupDesc_t.mreq gd0)
            (s\<lparr>xMulticastGroupsList := ?L, events := ?ev\<rparr>) = Some s2'"
      using d gd0 by (simp add: drop_membership_def)
    then show ?thesis using v by (simp add: vRemove_frame_update)
  qed
  have sockr: "sock_inv ?L ((groupHeap s)(g0 := None))"
    using sock g0in by (rule sock_inv_remove)
  show ?thesis
  proof (cases "g = g0")
    case True
    have fr: "vPortFree_group g0 s2' = Some (s2'\<lparr>groupHeap := (groupHeap s)(g0 := None)\<rparr>)"
      using vPortFree_group_Some[of s2' g0 gd0] gd0 f2 by simp
    have eq: "vModifyMulticastMembership e g (eSocketOptDropMembership e) s
        = Some (s2'\<lparr>groupHeap := (groupHeap s)(g0 := None)\<rparr>)"
      using g loc ne d fr True by (simp add: vModifyMulticastMembership_def)
    have st: "state_ok (s2'\<lparr>groupHeap := (groupHeap s)(g0 := None)\<rparr>)"
      using r2 f2 sockr by (simp add: state_ok_def)
    show ?thesis using eq st gd0 v rel True by auto
  next
    case False
    then have un: "g \<notin> set (xMulticastGroupsList s ?k)" using own by simp
    have unl: "g \<notin> set (xMulticastGroupsList s k)" for k
      using sock_inv_unlinked_all[OF sock g un] .
    have unl': "g \<notin> set (?L k)" for k
      using unl[of k] unl[of ?k] by (auto dest: notin_set_remove1)
    have fr1: "vPortFree_group g s2' = Some (s2'\<lparr>groupHeap := (groupHeap s)(g := None)\<rparr>)"
      using vPortFree_group_Some[of s2' g gd] g f2 by simp
    have fr2: "vPortFree_group g0 (s2'\<lparr>groupHeap := (groupHeap s)(g := None)\<rparr>)
        = Some (s2'\<lparr>groupHeap := ((groupHeap s)(g := None))(g0 := None)\<rparr>)"
      using vPortFree_group_Some[of "s2'\<lparr>groupHeap := (groupHeap s)(g := None)\<rparr>" g0 gd0] gd0 False
      by simp
    have eq: "vModifyMulticastMembership e g (eSocketOptDropMembership e) s
        = Some (s2'\<lparr>groupHeap := ((groupHeap s)(g := None))(g0 := None)\<rparr>)"
      using g loc ne d fr1 fr2 False by (simp add: vModifyMulticastMembership_def)
    have "sock_inv ?L (((groupHeap s)(g0 := None))(g := None))"
      using sockr unl' by (rule sock_inv_unlinked)
    then have "sock_inv ?L (((groupHeap s)(g := None))(g0 := None))"
      using False by (simp add: fun_upd_twist)
    then have st: "state_ok (s2'\<lparr>groupHeap := ((groupHeap s)(g := None))(g0 := None)\<rparr>)"
      using r2 f2 by (simp add: state_ok_def)
    show ?thesis using eq st gd0 v rel by auto
  qed
qed

section \<open>Uniqueness in the registry\<close>

lemma linked_find_group:
  assumes "sock_inv (xMulticastGroupsList s) (groupHeap s)" "groupHeap s g = Some gd"
    "g \<in> set (xMulticastGroupsList s (pxSocket gd))"
  shows "find_group s (pxSocket gd) (group_addr gd) = Some g"
proof (cases "find_group s (pxSocket gd) (group_addr gd)")
  case None
  then show ?thesis using assms(2,3) by (auto simp: find_group_None)
next
  case (Some q)
  have q: "q \<in> set (xMulticastGroupsList s (pxSocket gd))"
    "map_option group_addr (groupHeap s q) = Some (group_addr gd)"
    using find_group_Some[OF Some] by auto
  have "map_option group_addr (groupHeap s q) = map_option group_addr (groupHeap s g)"
    using q(2) assms(2) by simp
  then have "q = g" using assms(1,3) q(1) unfolding sock_inv_def by blast
  then show ?thesis using Some by simp
qed

lemma vModify_state_ok:
  assumes env: "env_ok e" and ok: "state_ok s"
    and req: "caller_owned g s \<or> (linked g s \<and> bAction = eSocketOptDropMembership e)"
  shows "\<exists>s'. vModifyMulticastMembership e g bAction s = Some s' \<and> state_ok s'"
proof -
  have sock: "sock_inv (xMulticastGroupsList s) (groupHeap s)" using ok by (simp add: state_ok_def)
  consider (inv) "eSocketOptAddMembership e \<noteq> bAction" "eSocketOptDropMembership e \<noteq> bAction"
    | (add) "bAction = eSocketOptAddMembership e"
    | (drop) "bAction = eSocketOptDropMembership e" by blast
  then show ?thesis
  proof cases
    case inv
    then show ?thesis using vModify_invalid ok by simp
  next
    case add
    then have "caller_owned g s" using req env by (auto simp: env_ok_def)
    then show ?thesis using vModify_add_ok[OF env ok] add by simp
  next
    case drop
    show ?thesis
    proof (cases "linked g s")
      case True
      then obtain gd where g: "groupHeap s g = Some gd"
        and l: "g \<in> set (xMulticastGroupsList s (pxSocket gd))"
        unfolding linked_def by blast
      have f: "find_group s (pxSocket gd) (group_addr gd) = Some g"
        using linked_find_group[OF sock g l] .
      show ?thesis using vModify_drop_found_ok[OF env ok g f] drop by blast
    next
      case False
      then have "caller_owned g s" using req by simp
      then obtain gd where g: "groupHeap s g = Some gd"
        and un: "g \<notin> set (xMulticastGroupsList s (pxSocket gd))"
        unfolding caller_owned_def by blast
      show ?thesis
      proof (cases "find_group s (pxSocket gd) (group_addr gd)")
        case None
        then show ?thesis using vModify_drop_absent_ok[OF env ok g un None] drop by simp
      next
        case (Some g0)
        have "g = g0 \<or> g \<notin> set (xMulticastGroupsList s (pxSocket gd))" using un by simp
        then show ?thesis using vModify_drop_found_ok[OF env ok g Some] drop by blast
      qed
    qed
  qed
qed

lemma state_ok_countdowns:
  assumes "state_ok s" "xIGMP_ScheduleList s' = xIGMP_ScheduleList s"
    "xMulticastGroupsList s' = xMulticastGroupsList s" "groupHeap s' = groupHeap s"
    "\<And>p. p \<in> set (xIGMP_ScheduleList s) \<Longrightarrow>
        map_option report_addr (reportHeap s' p) = map_option report_addr (reportHeap s p)"
  shows "state_ok s'"
proof -
  have "reg_inv (xIGMP_ScheduleList s) (reportHeap s')"
    using assms(1,5) reg_inv_cong[of "xIGMP_ScheduleList s" "reportHeap s" "reportHeap s'"]
    by (simp add: state_ok_def)
  then show ?thesis using assms(1-4) by (simp add: state_ok_def)
qed

lemma vHandleIGMP_Event_state_ok:
  assumes "state_ok s"
  shows "\<exists>s'. vHandleIGMP_Event e s = Some s' \<and> state_ok s'"
proof -
  have ok: "registry_ok s" using assms by (rule state_ok_registry_ok)
  obtain s' where s': "handle_reports e (xIGMP_ScheduleList s) s = Some s'"
    and post: "tick_post e (xIGMP_ScheduleList s) s s'"
    using handle_reports_effect[of "xIGMP_ScheduleList s" s e] ok
    by (auto simp: registry_ok_def)
  have fr: "s' = s\<lparr>reportHeap := reportHeap s', bufCalls := bufCalls s', events := events s'\<rparr>"
    using post unfolding tick_post_def by blast
  have 1: "xIGMP_ScheduleList s' = xIGMP_ScheduleList s"
    using arg_cong[OF fr, of xIGMP_ScheduleList] by simp
  have 2: "xMulticastGroupsList s' = xMulticastGroupsList s"
    using arg_cong[OF fr, of xMulticastGroupsList] by simp
  have 3: "groupHeap s' = groupHeap s"
    using arg_cong[OF fr, of groupHeap] by simp
  have 4: "map_option report_addr (reportHeap s' p) = map_option report_addr (reportHeap s p)"
    if p: "p \<in> set (xIGMP_ScheduleList s)" for p
  proof -
    obtain d where d: "reportHeap s p = Some d" using ok p by (auto simp: registry_ok_def)
    then have "reportHeap s' p = Some (tick_desc d)" using post p unfolding tick_post_def by blast
    then show ?thesis using d by (simp add: tick_desc_def report_addr_def)
  qed
  have "state_ok s'" using state_ok_countdowns[OF assms 1 2 3 4] .
  then show ?thesis using s' by (simp add: vHandleIGMP_Event_def)
qed

lemma sched_post_state_ok:
  assumes "state_ok s" "sched_post e m (xIGMP_ScheduleList s) s s'"
  shows "state_ok s'"
proof -
  have ok: "registry_ok s" using assms(1) by (rule state_ok_registry_ok)
  have fr: "s' = s\<lparr>reportHeap := reportHeap s', rndCalls := rndCalls s'\<rparr>"
    using assms(2) unfolding sched_post_def by blast
  have 1: "xIGMP_ScheduleList s' = xIGMP_ScheduleList s"
    using arg_cong[OF fr, of xIGMP_ScheduleList] by simp
  have 2: "xMulticastGroupsList s' = xMulticastGroupsList s"
    using arg_cong[OF fr, of xMulticastGroupsList] by simp
  have 3: "groupHeap s' = groupHeap s"
    using arg_cong[OF fr, of groupHeap] by simp
  have 4: "map_option report_addr (reportHeap s' p) = map_option report_addr (reportHeap s p)"
    if p: "p \<in> set (xIGMP_ScheduleList s)" for p
  proof -
    obtain d where d: "reportHeap s p = Some d" using ok p by (auto simp: registry_ok_def)
    have "if must_reschedule m d
            then \<exists>i k v. rndCalls s \<le> i \<and> i < rndCalls s' \<and> drawn_delay e m i k = Some v
                   \<and> 1 \<le> unat v \<and> unat v \<le> unat (ucMaxRespTime m)
                   \<and> reportHeap s' p = Some (d\<lparr>ucCountDown := v\<rparr>)
            else reportHeap s' p = Some d"
      using assms(2) p d unfolding sched_post_def by blast
    then show ?thesis using d by (auto simp: report_addr_def split: if_splits)
  qed
  show ?thesis using state_ok_countdowns[OF assms(1) 1 2 3 4] .
qed

lemma state_ok_counters:
  "state_ok (s\<lparr>uiNumIGMP_Queries := x\<rparr>) = state_ok s"
  "state_ok (s\<lparr>uiNumIGMP_Reports := y\<rparr>) = state_ok s"
  by (simp_all add: state_ok_def)

lemma eProcessIGMPPacket_state_ok:
  assumes "state_ok s" "eProcessIGMPPacket e b s = Some (r, s')"
  shows "state_ok s'"
proof (cases "\<exists>m. general_query b m")
  case True
  then obtain m where m: "general_query b m" by blast
  obtain s2 where "eProcessIGMPPacket e b s = Some (eReleaseBuffer, s2)"
    and post: "sched_post e m (xIGMP_ScheduleList s) (s\<lparr>uiNumIGMP_Queries := uiNumIGMP_Queries s + 1\<rparr>) s2"
    using eProcess_general_query[OF m state_ok_registry_ok[OF assms(1)]] by blast
  then have "s2 = s'" using assms(2) by simp
  then show ?thesis
    using sched_post_state_ok[of "s\<lparr>uiNumIGMP_Queries := uiNumIGMP_Queries s + 1\<rparr>" e m s'] post assms(1)
    by (simp add: state_ok_counters)
next
  case False
  then have "s' = s \<or> s' = s\<lparr>uiNumIGMP_Queries := uiNumIGMP_Queries s + 1\<rparr>
     \<or> s' = s\<lparr>uiNumIGMP_Reports := uiNumIGMP_Reports s + 1\<rparr>"
    using assms(2)
    by (auto simp: eProcessIGMPPacket_def general_query_def Let_def
        split: if_splits Option.bind_splits)
  then show ?thesis using assms(1) by (auto simp: state_ok_counters)
qed

lemma state_ok_boot: "state_ok boot"
  by (simp add: state_ok_def reg_inv_def sock_inv_def boot_def)

lemma vIGMP_Init_state_ok:
  "\<exists>s. vIGMP_Init e pxIRD boot = Some s \<and> state_ok s"
proof -
  let ?ev = "events boot @
     [EMAC_AddMulticastAddress (vSetMultiCastIPv4MacAddress e (ipIGMP_IP_ADDR e))]"
  let ?s0 = "boot\<lparr>xIGMP_ScheduleList := [], events := ?ev\<rparr>"
  have ok0: "state_ok ?s0" using state_ok_boot by (simp add: state_ok_def boot_def)
  show ?thesis
  proof (cases "ipconfigUSE_LLMNR e \<and> pxIRD \<noteq> 0")
    case False
    then have "vIGMP_Init e pxIRD boot = Some ?s0" by (auto simp: vIGMP_Init_def)
    then show ?thesis using ok0 by simp
  next
    case True
    let ?d = "\<lparr>IGMPReportDesc_t.mreq = \<lparr>imr_multiaddr = ipLLMNR_IP_ADDR e, imr_interface = 0\<rparr>,
                       xNumSockets = 0, ucCountDown = 0\<rparr>"
    let ?s1 = "?s0\<lparr>reportHeap := (reportHeap ?s0)(pxIRD \<mapsto> ?d)\<rparr>"
    have reg: "reg_inv (xIGMP_ScheduleList ?s1) (reportHeap ?s1)" by (simp add: reg_inv_def)
    have h: "reportHeap ?s1 pxIRD = Some ?d" by simp
    have n: "pxIRD \<notin> set (xIGMP_ScheduleList ?s1)" by simp
    obtain c s2 where x: "xAddIGMPReportToList e pxIRD ?s1 = Some (c, s2)"
      and f: "xMulticastGroupsList s2 = xMulticastGroupsList ?s1" "groupHeap s2 = groupHeap ?s1"
      and al: "reportHeap s2 pxIRD \<noteq> None"
      and c1: "c \<longrightarrow> reg_inv (xIGMP_ScheduleList s2) (reportHeap s2)"
      and c2: "\<not> c \<longrightarrow> reg_inv (xIGMP_ScheduleList s2) ((reportHeap s2)(pxIRD := None))"
      using xAdd_reg_inv[OF reg h n, of e] by auto
    have sk: "sock_inv (xMulticastGroupsList s2) (groupHeap s2)"
      using f by (simp add: sock_inv_def boot_def)
    show ?thesis
    proof (cases c)
      case True
      have "vIGMP_Init e pxIRD boot = Some s2" using \<open>ipconfigUSE_LLMNR e \<and> pxIRD \<noteq> 0\<close> x True
        by (simp add: vIGMP_Init_def)
      then show ?thesis using c1 True sk by (simp add: state_ok_def)
    next
      case False
      obtain d2 where "reportHeap s2 pxIRD = Some d2" using al by auto
      then have fr: "vPortFree_report pxIRD s2 = Some (s2\<lparr>reportHeap := (reportHeap s2)(pxIRD := None)\<rparr>)"
        by (rule vPortFree_report_Some)
      have "vIGMP_Init e pxIRD boot = Some (s2\<lparr>reportHeap := (reportHeap s2)(pxIRD := None)\<rparr>)"
        using \<open>ipconfigUSE_LLMNR e \<and> pxIRD \<noteq> 0\<close> x False fr by (simp add: vIGMP_Init_def)
      then show ?thesis using c2 False sk by (simp add: state_ok_def)
    qed
  qed
qed

lemma state_ok_malloc_group:
  assumes "state_ok s" "groupHeap s g = None"
  shows "state_ok (s\<lparr>groupHeap := (groupHeap s)(g \<mapsto> gd)\<rparr>)"
proof -
  have sock: "sock_inv (xMulticastGroupsList s) (groupHeap s)" using assms(1) by (simp add: state_ok_def)
  have "g \<notin> set (xMulticastGroupsList s k)" for k
    using sock_inv_unallocated[OF sock assms(2)] .
  then have "sock_inv (xMulticastGroupsList s) ((groupHeap s)(g \<mapsto> gd))"
    using sock sock_inv_unlinked by blast
  then show ?thesis using assms(1) by (simp add: state_ok_def)
qed

lemma state_ok_malloc_report:
  assumes "state_ok s" "reportHeap s r = None"
  shows "state_ok (s\<lparr>reportHeap := (reportHeap s)(r \<mapsto> rd)\<rparr>)"
proof -
  have reg: "reg_inv (xIGMP_ScheduleList s) (reportHeap s)" using assms(1) by (simp add: state_ok_def)
  have "r \<notin> set (xIGMP_ScheduleList s)" using reg assms(2) by (auto simp: reg_inv_def)
  then have "reg_inv (xIGMP_ScheduleList s) ((reportHeap s)(r \<mapsto> rd))"
    using reg reg_inv_unlinked by blast
  then show ?thesis using assms(1) by (simp add: state_ok_def)
qed

lemma reachable_state_ok:
  assumes "env_ok e" "reachable e s"
  shows "state_ok s"
  using assms(2)
proof (induction rule: reachable.induct)
  case (init pxIRD s)
  then show ?case using vIGMP_Init_state_ok[of e pxIRD] by auto
next
  case (malloc_group s g gd)
  then show ?case using state_ok_malloc_group by blast
next
  case (malloc_report s r rd)
  then show ?case using state_ok_malloc_report by blast
next
  case (modify s g bAction s')
  then show ?case using vModify_state_ok[OF assms(1), of s g bAction] by auto
next
  case (close s g s')
  then show ?case using vModify_state_ok[OF assms(1), of s g "eSocketOptDropMembership e"] by auto
next
  case (tick s s')
  then show ?case using vHandleIGMP_Event_state_ok[of s e] by auto
next
  case (packet s b r s')
  then show ?case using eProcessIGMPPacket_state_ok by blast
qed

text \<open>
  Claim C1 (registry uniqueness invariant): in every state reached from the freshly
  initialised schedule list by any sequence of join and leave requests (and ticks and
  packets), the items of \<open>xIGMP_ScheduleList\<close> are linked once, are allocated, and no two of
  them have equal multicast group addresses; and every further join or leave request
  returns.
\<close>

theorem C1_registry_unique:
  assumes "env_ok e" "reachable e s"
  shows "distinct (xIGMP_ScheduleList s)
     \<and> (\<forall>p\<in>set (xIGMP_ScheduleList s). \<exists>d. reportHeap s p = Some d)
     \<and> (\<forall>p\<in>set (xIGMP_ScheduleList s). \<forall>q\<in>set (xIGMP_ScheduleList s). \<forall>d d'.
           reportHeap s p = Some d \<longrightarrow> reportHeap s q = Some d' \<longrightarrow>
           report_addr d = report_addr d' \<longrightarrow> p = q)
     \<and> (\<forall>g bAction. caller_owned g s \<or> (linked g s \<and> bAction = eSocketOptDropMembership e) \<longrightarrow>
           (\<exists>s'. vModifyMulticastMembership e g bAction s = Some s'))"
proof -
  have ok: "state_ok s" using reachable_state_ok[OF assms] .
  then have reg: "reg_inv (xIGMP_ScheduleList s) (reportHeap s)" by (simp add: state_ok_def)
  have 1: "distinct (xIGMP_ScheduleList s)" using reg by (simp add: reg_inv_def)
  have 2: "\<forall>p\<in>set (xIGMP_ScheduleList s). \<exists>d. reportHeap s p = Some d"
    using reg by (auto simp: reg_inv_def)
  have 3: "\<forall>p\<in>set (xIGMP_ScheduleList s). \<forall>q\<in>set (xIGMP_ScheduleList s). \<forall>d d'.
           reportHeap s p = Some d \<longrightarrow> reportHeap s q = Some d' \<longrightarrow>
           report_addr d = report_addr d' \<longrightarrow> p = q"
  proof (intro ballI allI impI)
    fix p q d d'
    assume "p \<in> set (xIGMP_ScheduleList s)" "q \<in> set (xIGMP_ScheduleList s)"
      "reportHeap s p = Some d" "reportHeap s q = Some d'" "report_addr d = report_addr d'"
    moreover from this have "map_option report_addr (reportHeap s p) = map_option report_addr (reportHeap s q)"
      by simp
    ultimately show "p = q" using reg unfolding reg_inv_def by blast
  qed
  have 4: "\<forall>g bAction. caller_owned g s \<or> (linked g s \<and> bAction = eSocketOptDropMembership e) \<longrightarrow>
           (\<exists>s'. vModifyMulticastMembership e g bAction s = Some s')"
    using vModify_state_ok[OF assms(1) ok] by blast
  show ?thesis using 1 2 3 4 by blast
qed

section \<open>Reference counting over joins and leaves\<close>

lemma member_find_group: "member s k a \<longleftrightarrow> find_group s k a \<noteq> None"
  by (auto simp: member_def find_group_None)

lemma entries_for_Nil: "entries_for s a = [] \<longleftrightarrow> find_report s a = None"
  by (auto simp: entries_for_def find_report_None filter_empty_conv)

lemma filter_eq_distinct: "distinct xs \<Longrightarrow> p \<in> set xs \<Longrightarrow> filter (\<lambda>q. q = p) xs = [p]"
  by (induction xs) (auto simp: filter_empty_conv)

lemma entries_for_unique:
  assumes "reg_inv (xIGMP_ScheduleList s) (reportHeap s)" "find_report s a = Some p"
  shows "entries_for s a = [p]"
proof -
  have p: "p \<in> set (xIGMP_ScheduleList s)" "map_option report_addr (reportHeap s p) = Some a"
    using find_report_Some[OF assms(2)] by auto
  have d: "distinct (xIGMP_ScheduleList s)" using assms(1) by (simp add: reg_inv_def)
  have "\<And>q. q \<in> set (xIGMP_ScheduleList s) \<Longrightarrow>
      (map_option report_addr (reportHeap s q) = Some a) = (q = p)"
    using assms(1) p unfolding reg_inv_def by metis
  then have "entries_for s a = filter (\<lambda>q. q = p) (xIGMP_ScheduleList s)"
    unfolding entries_for_def by (intro filter_cong) auto
  also have "\<dots> = [p]" using d p(1) by (rule filter_eq_distinct)
  finally show ?thesis .
qed

lemma entries_for_cong:
  assumes "xIGMP_ScheduleList s' = xIGMP_ScheduleList s"
    "\<And>p. p \<in> set (xIGMP_ScheduleList s) \<Longrightarrow>
       map_option report_addr (reportHeap s' p) = map_option report_addr (reportHeap s p)"
  shows "entries_for s' a = entries_for s a"
  unfolding entries_for_def assms(1) using assms(2) by (intro filter_cong) auto

lemma find_report_cong:
  assumes "xIGMP_ScheduleList s' = xIGMP_ScheduleList s"
    "\<And>p. p \<in> set (xIGMP_ScheduleList s) \<Longrightarrow>
       map_option report_addr (reportHeap s' p) = map_option report_addr (reportHeap s p)"
  shows "find_report s' a = find_report s a"
  unfolding find_report_def assms(1) using assms(2) by (intro find_cong) auto

lemma count_is_found:
  assumes "reg_inv (xIGMP_ScheduleList s) (reportHeap s)" "count_is s a c"
    "find_report s a = Some p"
  shows "c \<noteq> 0 \<and> (\<exists>d. reportHeap s p = Some d \<and> sint (xNumSockets d) = c)"
proof -
  have e: "entries_for s a = [p]" using entries_for_unique[OF assms(1,3)] .
  then show ?thesis using assms(2) by (auto simp: count_is_def split: if_splits)
qed

lemma count_is_absent:
  assumes "count_is s a c" "find_report s a = None"
  shows "c = 0"
  using assms entries_for_Nil[of s a] by (auto simp: count_is_def split: if_splits)

lemma join_effect:
  assumes env: "env_ok e" and ok: "state_ok s" and ma: "imr_multiaddr m = a"
    and nm: "\<not> member s k a" and gf: "groupHeap s g = None"
    and rf: "reportHeap s r = None" and rz: "r \<noteq> 0"
    and cnt: "count_is s a c" and cpos: "0 \<le> c" and cmax: "c < 2147483647"
  shows "\<exists>s'. join e m k g r s = Some s' \<and> state_ok s' \<and> count_is s' a (c + 1)
     \<and> events s' = events s @ [EMAC_AddMulticastAddress (vSetMultiCastIPv4MacAddress e a)]
     \<and> (\<forall>k'. member s' k' a \<longleftrightarrow> (k' = k \<or> member s k' a))
     \<and> (\<forall>x. groupHeap s' x = None \<longleftrightarrow> (x \<noteq> g \<and> groupHeap s x = None))
     \<and> (\<forall>x. x \<noteq> r \<longrightarrow> reportHeap s x = None \<longrightarrow> reportHeap s' x = None)"
proof -
  let ?gd = "\<lparr>MCastGroupDesc_t.mreq = m, pxSocket = k, pxIGMPReportDesc = r\<rparr>"
  let ?rd = "\<lparr>IGMPReportDesc_t.mreq = m, xNumSockets = 0, ucCountDown = 0\<rparr>"
  let ?sp = "s\<lparr>groupHeap := (groupHeap s)(g \<mapsto> ?gd), reportHeap := (reportHeap s)(r \<mapsto> ?rd)\<rparr>"
  let ?L = "(xMulticastGroupsList s)(k := xMulticastGroupsList s k @ [g])"
  let ?ev = "events s @ [EMAC_AddMulticastAddress (vSetMultiCastIPv4MacAddress e a)]"
  let ?s1 = "?sp\<lparr>xMulticastGroupsList := ?L, events := ?ev\<rparr>"
  have reg: "reg_inv (xIGMP_ScheduleList s) (reportHeap s)"
    and sock: "sock_inv (xMulticastGroupsList s) (groupHeap s)"
    using ok by (simp_all add: state_ok_def)
  have gl: "g \<notin> set (xMulticastGroupsList s k')" for k'
    using sock_inv_unallocated[OF sock gf] .
  have rl: "r \<notin> set (xIGMP_ScheduleList s)" using reg rf by (auto simp: reg_inv_def)
  have ga: "group_addr ?gd = a" "report_addr ?rd = a" using ma by (simp_all add: group_addr_def report_addr_def)
  have okp: "state_ok ?sp"
    using state_ok_malloc_report[OF state_ok_malloc_group[OF ok gf, of ?gd], of r ?rd] rf by simp
  have own: "caller_owned g ?sp" using gl rl by (simp add: caller_owned_def)
  obtain s' where eq: "vModifyMulticastMembership e g (eSocketOptAddMembership e) ?sp = Some s'"
    and ok': "state_ok s'"
    using vModify_add_ok[OF env okp own] by blast
  have ne: "eSocketOptDropMembership e \<noteq> eSocketOptAddMembership e" using env by (simp add: env_ok_def)
  have sockp: "sock_inv (xMulticastGroupsList ?sp) (groupHeap ?sp)" using okp by (simp add: state_ok_def)
  have nfg: "find_group ?sp k a = None"
    using nm gl by (auto simp: find_group_None member_def)
  have loc: "locate_group e g ?gd (eSocketOptAddMembership e) ?sp = Some (None, True, False, ?sp)"
    using locate_group_eq[where s="?sp" and gd="?gd" and e=e and g=g
         and bAction="eSocketOptAddMembership e", OF sock_inv_allocated[OF sockp]] nfg ga
    by simp
  have ok1: "registry_ok ?s1"
    using state_ok_registry_ok[OF okp] by (simp add: registry_ok_def)
  have h1: "reportHeap ?s1 r = Some ?rd" by simp
  have fr1: "find_report ?s1 a = find_report s a"
    by (rule find_report_cong) (use rl in auto)
  have mem: "\<forall>k'. member (s'') k' a \<longleftrightarrow> (k' = k \<or> member s k' a)"
    if "xMulticastGroupsList s'' = ?L" "groupHeap s'' = (groupHeap s)(g \<mapsto> gd')" "group_addr gd' = a"
    for s'' gd'
    using that gl by (auto simp: member_def)
  show ?thesis
  proof (cases "find_report s a")
    case None
    then have c0: "c = 0" using count_is_absent[OF cnt] by simp
    have n1: "find_report ?s1 (report_addr ?rd) = None" using fr1 None ga by simp
    obtain v where x: "xAddIGMPReportToList e r ?s1 =
          Some (True, ?s1\<lparr>reportHeap := (reportHeap ?s1)(r \<mapsto> ?rd\<lparr>xNumSockets := 1, ucCountDown := v\<rparr>),
                        xIGMP_ScheduleList := xIGMP_ScheduleList ?s1 @ [r],
                        rndCalls := Suc (rndCalls ?s1)\<rparr>)"
      using xAdd_not_found[OF ok1 h1 n1, of e] by blast
    let ?s2 = "?s1\<lparr>reportHeap := (reportHeap ?s1)(r \<mapsto> ?rd\<lparr>xNumSockets := 1, ucCountDown := v\<rparr>),
                        xIGMP_ScheduleList := xIGMP_ScheduleList ?s1 @ [r],
                        rndCalls := Suc (rndCalls ?s1)\<rparr>"
    have "vModifyMulticastMembership e g (eSocketOptAddMembership e) ?sp = Some ?s2"
      using loc x rz ga by (simp add: vModifyMulticastMembership_def add_membership_def)
    then have s': "s' = ?s2" using eq by simp
    have en: "entries_for ?s2 a = [r]"
      using None rl by (auto simp: entries_for_def find_report_None filter_empty_conv report_addr_def ma)
    have cnt': "count_is ?s2 a (c + 1)" using en c0 by (simp add: count_is_def)
    have m': "\<forall>k'. member ?s2 k' a \<longleftrightarrow> (k' = k \<or> member s k' a)"
      by (rule mem[of ?s2 ?gd]) (simp_all add: ga)
    have "join e m k g r s = Some ?s2" using eq s' rz by (simp add: join_def)
    moreover have "state_ok ?s2" using ok' s' by simp
    moreover have "events ?s2 = ?ev" by simp
    moreover have "\<forall>x. groupHeap ?s2 x = None \<longleftrightarrow> (x \<noteq> g \<and> groupHeap s x = None)" by simp
    moreover have "\<forall>x. x \<noteq> r \<longrightarrow> reportHeap s x = None \<longrightarrow> reportHeap ?s2 x = None" by simp
    ultimately show ?thesis using cnt' m' by blast
  next
    case (Some p)
    obtain d0 where c0: "c \<noteq> 0" and d0: "reportHeap s p = Some d0" "sint (xNumSockets d0) = c"
      using count_is_found[OF reg cnt Some] by blast
    have pl: "p \<in> set (xIGMP_ScheduleList s)" using find_report_Some[OF Some] by simp
    have pr: "p \<noteq> r" using pl rl by auto
    have n1: "find_report ?s1 (report_addr ?rd) = Some p" using fr1 Some ga by simp
    obtain d where d: "reportHeap ?s1 p = Some d"
      and x: "xAddIGMPReportToList e r ?s1 =
          Some (False, ?s1\<lparr>reportHeap := (reportHeap ?s1)(p \<mapsto> d\<lparr>xNumSockets := xNumSockets d + 1\<rparr>)\<rparr>)"
      using xAdd_found[OF ok1 h1 n1, of e] by blast
    have dd: "d = d0" using d d0 pr by simp
    let ?h = "(reportHeap s)(p \<mapsto> d0\<lparr>xNumSockets := xNumSockets d0 + 1\<rparr>)"
    have inc: "sint (xNumSockets d0 + 1) = c + 1"
      using BaseType_inc[of "xNumSockets d0"] d0(2) cmax by simp
    let ?s4 = "s\<lparr>groupHeap := (groupHeap s)(g \<mapsto> ?gd\<lparr>pxIGMPReportDesc := 0\<rparr>),
                 reportHeap := ?h, xMulticastGroupsList := ?L, events := ?ev\<rparr>"
    have hh: "((reportHeap ?s1)(p \<mapsto> d\<lparr>xNumSockets := xNumSockets d + 1\<rparr>))(r := None) = ?h"
      using pr rf dd d0 by (auto simp: fun_eq_iff)
    have "vModifyMulticastMembership e g (eSocketOptAddMembership e) ?sp = Some ?s4"
      using loc x rz ga pr hh
      by (simp add: vModifyMulticastMembership_def add_membership_def vPortFree_report_def)
    then have s': "s' = ?s4" using eq by simp
    have en: "entries_for ?s4 a = entries_for s a"
      by (rule entries_for_cong) (use d0 in \<open>auto simp: report_addr_def\<close>)
    have "entries_for s a = [p]" using entries_for_unique[OF reg Some] .
    then have cnt': "count_is ?s4 a (c + 1)" using en c0 d0 cpos inc by (simp add: count_is_def)
    have m': "\<forall>k'. member ?s4 k' a \<longleftrightarrow> (k' = k \<or> member s k' a)"
      by (rule mem[of ?s4 "?gd\<lparr>pxIGMPReportDesc := 0\<rparr>"]) (simp_all add: ga group_addr_def ma)
    have "join e m k g r s = Some ?s4" using eq s' rz by (simp add: join_def)
    moreover have "state_ok ?s4" using ok' s' by simp
    moreover have "events ?s4 = ?ev" by simp
    moreover have "\<forall>x. groupHeap ?s4 x = None \<longleftrightarrow> (x \<noteq> g \<and> groupHeap s x = None)" by simp
    moreover have "\<forall>x. x \<noteq> r \<longrightarrow> reportHeap s x = None \<longrightarrow> reportHeap ?s4 x = None"
      using d0 by auto
    ultimately show ?thesis using cnt' m' by blast
  qed
qed

lemma find_group_cong:
  assumes "xMulticastGroupsList s' k = xMulticastGroupsList s k"
    "\<And>q. q \<in> set (xMulticastGroupsList s k) \<Longrightarrow>
       map_option group_addr (groupHeap s' q) = map_option group_addr (groupHeap s q)"
  shows "find_group s' k a = find_group s k a"
  unfolding find_group_def assms(1) using assms(2) by (intro find_cong) auto

lemma leave_effect:
  assumes env: "env_ok e" and ok: "state_ok s" and ma: "imr_multiaddr m = a"
    and mem: "member s k a" and gf: "groupHeap s g = None"
    and cnt: "count_is s a c" and cpos: "1 \<le> c"
  shows "\<exists>s'. leave e m k g s = Some s' \<and> state_ok s' \<and> count_is s' a (c - 1)
     \<and> events s' = events s @ [EMAC_RemoveMulticastAddress (vSetMultiCastIPv4MacAddress e a)]
     \<and> (\<forall>k'. member s' k' a \<longleftrightarrow> (k' \<noteq> k \<and> member s k' a))
     \<and> (\<forall>x. groupHeap s x = None \<longrightarrow> groupHeap s' x = None)"
proof -
  let ?gd = "\<lparr>MCastGroupDesc_t.mreq = m, pxSocket = k, pxIGMPReportDesc = 0\<rparr>"
  let ?sp = "s\<lparr>groupHeap := (groupHeap s)(g \<mapsto> ?gd)\<rparr>"
  let ?ev = "events s @ [EMAC_RemoveMulticastAddress (vSetMultiCastIPv4MacAddress e a)]"
  have reg: "reg_inv (xIGMP_ScheduleList s) (reportHeap s)"
    and sock: "sock_inv (xMulticastGroupsList s) (groupHeap s)"
    using ok by (simp_all add: state_ok_def)
  have gl: "g \<notin> set (xMulticastGroupsList s k')" for k'
    using sock_inv_unallocated[OF sock gf] .
  have ga: "group_addr ?gd = a" using ma by (simp add: group_addr_def)
  have okp: "state_ok ?sp" using state_ok_malloc_group[OF ok gf] .
  have gp: "groupHeap ?sp g = Some ?gd" by simp
  have fg: "find_group ?sp k a = find_group s k a"
    by (rule find_group_cong) (use gl in auto)
  obtain g0 where g0: "find_group s k a = Some g0"
    using mem by (auto simp: member_find_group)
  have f: "find_group ?sp (pxSocket ?gd) (group_addr ?gd) = Some g0" using fg g0 ga by simp
  have own: "g = g0 \<or> g \<notin> set (xMulticastGroupsList ?sp (pxSocket ?gd))" using gl by simp
  let ?L = "(xMulticastGroupsList s)(k := remove1 g0 (xMulticastGroupsList s k))"
  obtain s' s2 gd0 where eq: "vModifyMulticastMembership e g (eSocketOptDropMembership e) ?sp = Some s'"
    and ok': "state_ok s'"
    and gd0: "groupHeap ?sp g0 = Some gd0" "group_addr gd0 = group_addr ?gd"
    and v: "vRemoveIGMPReportFromList (MCastGroupDesc_t.mreq gd0) ?sp = Some s2"
    and s': "s' = s2\<lparr>xMulticastGroupsList := (xMulticastGroupsList ?sp)
                  (pxSocket ?gd := remove1 g0 (xMulticastGroupsList ?sp (pxSocket ?gd))),
               groupHeap := ((groupHeap ?sp)(g := None))(g0 := None),
               events := events ?sp @
                 [EMAC_RemoveMulticastAddress (vSetMultiCastIPv4MacAddress e (group_addr ?gd))]\<rparr>"
    using vModify_drop_found_ok[OF env okp gp f own] by blast
  have g0in: "g0 \<in> set (xMulticastGroupsList s k)"
    and g0a: "map_option group_addr (groupHeap s g0) = Some a"
    using find_group_Some[OF g0] by auto
  have gh: "((groupHeap ?sp)(g := None))(g0 := None) = (groupHeap s)(g0 := None)"
    using gf by (auto simp: fun_eq_iff)
  have s'': "s' = s2\<lparr>xMulticastGroupsList := ?L, groupHeap := (groupHeap s)(g0 := None), events := ?ev\<rparr>"
    using s' gh ga by simp
  have ma0: "imr_multiaddr (MCastGroupDesc_t.mreq gd0) = a"
    using gd0(2) ga by (simp add: group_addr_def)
  have okr: "registry_ok ?sp" using state_ok_registry_ok[OF okp] .
  have frp: "find_report ?sp a = find_report s a" by (simp add: find_report_def)
  obtain p d where en: "entries_for s a = [p]" and d: "reportHeap s p = Some d" "sint (xNumSockets d) = c"
    using cnt cpos by (auto simp: count_is_def split: if_splits)
  have "find_report s a \<noteq> None" using en entries_for_Nil[of s a] by auto
  then obtain p' where p': "find_report s a = Some p'" by auto
  have "entries_for s a = [p']" using entries_for_unique[OF reg p'] .
  then have fp: "find_report s a = Some p" using p' en by simp
  have pin: "p \<in> set (xIGMP_ScheduleList s)" using find_report_Some[OF fp] by simp
  have uniq: "q = p" if "q \<in> set (xIGMP_ScheduleList s)"
     "map_option report_addr (reportHeap s q) = Some a" for q
    using that find_report_Some[OF fp] reg unfolding reg_inv_def by metis
  have fp2: "find_report ?sp (imr_multiaddr (MCastGroupDesc_t.mreq gd0)) = Some p"
    using fp frp ma0 by simp
  have dec: "sint (xNumSockets d - 1) = c - 1"
    using BaseType_dec[of "xNumSockets d"] d(2) cpos by simp
  have one: "xNumSockets d - 1 = 0 \<longleftrightarrow> c - 1 = 0"
    using BaseType_one[of "xNumSockets d"] d(2) by auto
  have rem: "vRemoveIGMPReportFromList (MCastGroupDesc_t.mreq gd0) ?sp =
         Some (if c - 1 = 0
               then ?sp\<lparr>reportHeap := (reportHeap s)(p := None),
                      xIGMP_ScheduleList := remove1 p (xIGMP_ScheduleList s)\<rparr>
               else ?sp\<lparr>reportHeap := (reportHeap s)(p \<mapsto> d\<lparr>xNumSockets := xNumSockets d - 1\<rparr>)\<rparr>)"
    using vRemove_found[OF okr fp2] d cpos one by auto
  have memb: "\<forall>k'. member s' k' a \<longleftrightarrow> (k' \<noteq> k \<and> member s k' a)"
  proof
    fix k'
    show "member s' k' a \<longleftrightarrow> (k' \<noteq> k \<and> member s k' a)"
    proof (cases "k' = k")
      case True
      have dk: "distinct (xMulticastGroupsList s k)" using sock by (simp add: sock_inv_def)
      have "map_option group_addr (groupHeap s q) \<noteq> Some a"
        if "q \<in> set (xMulticastGroupsList s k)" "q \<noteq> g0" for q
      proof
        assume "map_option group_addr (groupHeap s q) = Some a"
        then have "map_option group_addr (groupHeap s q) = map_option group_addr (groupHeap s g0)"
          using g0a by (simp only:)
        then have "q = g0" using sock that(1) g0in unfolding sock_inv_def by blast
        then show False using that(2) by simp
      qed
      then have "\<not> member s' k a"
        using dk by (auto simp: member_def s'')
      then show ?thesis using True by simp
    next
      case False
      have "g0 \<notin> set (xMulticastGroupsList s k')"
      proof
        assume "g0 \<in> set (xMulticastGroupsList s k')"
        then obtain x where "groupHeap s g0 = Some x" "pxSocket x = k'"
          using sock_inv_linked[OF sock] by blast
        moreover obtain y where "groupHeap s g0 = Some y" "pxSocket y = k"
          using sock_inv_linked[OF sock g0in] by blast
        ultimately show False using False by simp
      qed
      then show ?thesis using False by (auto simp: member_def s'')
    qed
  qed
  have cnt': "count_is s' a (c - 1)"
  proof (cases "c - 1 = 0")
    case True
    then have s2: "s2 = ?sp\<lparr>reportHeap := (reportHeap s)(p := None),
                      xIGMP_ScheduleList := remove1 p (xIGMP_ScheduleList s)\<rparr>"
      using rem v by simp
    have dl: "distinct (xIGMP_ScheduleList s)" using reg by (simp add: reg_inv_def)
    have "entries_for s' a = []"
      using uniq dl by (auto simp: entries_for_def s'' s2 filter_empty_conv)
    then show ?thesis using True by (simp add: count_is_def)
  next
    case False
    then have s2: "s2 = ?sp\<lparr>reportHeap := (reportHeap s)(p \<mapsto> d\<lparr>xNumSockets := xNumSockets d - 1\<rparr>)\<rparr>"
      using rem v by simp
    have "entries_for s' a = entries_for s a"
      by (rule entries_for_cong) (use d in \<open>auto simp: s'' s2 report_addr_def\<close>)
    then show ?thesis using False en dec by (simp add: count_is_def s'' s2)
  qed
  have "leave e m k g s = Some s'" using eq by (simp add: leave_def)
  moreover have "events s' = ?ev" by (simp add: s'')
  moreover have "\<forall>x. groupHeap s x = None \<longrightarrow> groupHeap s' x = None" by (simp add: s'')
  ultimately show ?thesis using ok' cnt' memb by blast
qed

lemma join_all_effect:
  assumes env: "env_ok e" and ma: "imr_multiaddr m = a"
  shows "state_ok s \<Longrightarrow> count_is s a c \<Longrightarrow> 0 \<le> c \<Longrightarrow>
    c + int (length js) \<le> 2147483647 \<Longrightarrow>
    distinct (map fst js) \<Longrightarrow> distinct (map (\<lambda>j. fst (snd j)) js) \<Longrightarrow> distinct (map (\<lambda>j. snd (snd j)) js) \<Longrightarrow>
    (\<forall>(k, g, r)\<in>set js. \<not> member s k a \<and> groupHeap s g = None \<and> reportHeap s r = None \<and> r \<noteq> 0) \<Longrightarrow>
    \<exists>s'. join_all e m js s = Some s' \<and> state_ok s' \<and> count_is s' a (c + int (length js))
      \<and> events s' = events s @
           replicate (length js) (EMAC_AddMulticastAddress (vSetMultiCastIPv4MacAddress e a))
      \<and> (\<forall>k'. member s' k' a \<longleftrightarrow> (k' \<in> fst ` set js \<or> member s k' a))
      \<and> (\<forall>x. groupHeap s' x = None \<longleftrightarrow> (x \<notin> (\<lambda>j. fst (snd j)) ` set js \<and> groupHeap s x = None))"
proof (induction js arbitrary: s c)
  case Nil
  then show ?case by simp
next
  case (Cons j js)
  obtain k g r where j: "j = (k, g, r)" by (cases j) auto
  have fr: "\<not> member s k a" "groupHeap s g = None" "reportHeap s r = None" "r \<noteq> 0"
    using Cons.prems(8) j by auto
  have cm: "c < 2147483647" "c + 1 + int (length js) \<le> 2147483647"
    using Cons.prems(4) by simp_all
  obtain s1 where j1: "join e m k g r s = Some s1" and ok1: "state_ok s1"
    and c1: "count_is s1 a (c + 1)"
    and e1: "events s1 = events s @ [EMAC_AddMulticastAddress (vSetMultiCastIPv4MacAddress e a)]"
    and m1: "\<forall>k'. member s1 k' a \<longleftrightarrow> (k' = k \<or> member s k' a)"
    and g1: "\<forall>x. groupHeap s1 x = None \<longleftrightarrow> (x \<noteq> g \<and> groupHeap s x = None)"
    and r1: "\<forall>x. x \<noteq> r \<longrightarrow> reportHeap s x = None \<longrightarrow> reportHeap s1 x = None"
    using join_effect[OF env Cons.prems(1) ma fr Cons.prems(2,3) cm(1)] by blast
  have d: "distinct (map fst js)" "distinct (map (\<lambda>j. fst (snd j)) js)" "distinct (map (\<lambda>j. snd (snd j)) js)"
    "k \<notin> fst ` set js" "g \<notin> (\<lambda>j. fst (snd j)) ` set js" "r \<notin> (\<lambda>j. snd (snd j)) ` set js"
    using Cons.prems(5,6,7) j by auto
  have fresh1: "\<forall>(k', g', r')\<in>set js.
      \<not> member s1 k' a \<and> groupHeap s1 g' = None \<and> reportHeap s1 r' = None \<and> r' \<noteq> 0"
  proof (intro ballI, clarify)
    fix k' g' r' assume in_js: "(k', g', r') \<in> set js"
    then have old: "\<not> member s k' a" "groupHeap s g' = None" "reportHeap s r' = None" "r' \<noteq> 0"
      using Cons.prems(8) by auto
    have "k' \<noteq> k" "g' \<noteq> g" "r' \<noteq> r" using in_js d(4,5,6) by force+
    then show "\<not> member s1 k' a \<and> groupHeap s1 g' = None \<and> reportHeap s1 r' = None \<and> r' \<noteq> 0"
      using old m1 g1 r1 by auto
  qed
  have cp: "0 \<le> c + 1" using Cons.prems(3) by simp
  obtain s' where ja: "join_all e m js s1 = Some s'" and ok': "state_ok s'"
    and c': "count_is s' a (c + 1 + int (length js))"
    and e': "events s' = events s1 @
           replicate (length js) (EMAC_AddMulticastAddress (vSetMultiCastIPv4MacAddress e a))"
    and m': "\<forall>k'. member s' k' a \<longleftrightarrow> (k' \<in> fst ` set js \<or> member s1 k' a)"
    and g': "\<forall>x. groupHeap s' x = None \<longleftrightarrow> (x \<notin> (\<lambda>j. fst (snd j)) ` set js \<and> groupHeap s1 x = None)"
    using Cons.IH[OF ok1 c1 cp cm(2) d(1,2,3) fresh1] by blast
  have 1: "join_all e m (j # js) s = Some s'" using j j1 ja by simp
  have eqc: "c + int (length (j # js)) = c + 1 + int (length js)" by simp
  have 2: "count_is s' a (c + int (length (j # js)))" unfolding eqc by (rule c')
  have 3: "events s' = events s @
           replicate (length (j # js)) (EMAC_AddMulticastAddress (vSetMultiCastIPv4MacAddress e a))"
    using e' e1 by simp
  have 4: "\<forall>k'. member s' k' a \<longleftrightarrow> (k' \<in> fst ` set (j # js) \<or> member s k' a)"
    using m' m1 j by auto
  have 5: "\<forall>x. groupHeap s' x = None \<longleftrightarrow> (x \<notin> (\<lambda>j. fst (snd j)) ` set (j # js) \<and> groupHeap s x = None)"
    using g' g1 j by auto
  show ?case using 1 ok' 2 3 4 5 by blast
qed

lemma leave_all_effect:
  assumes env: "env_ok e" and ma: "imr_multiaddr m = a"
  shows "state_ok s \<Longrightarrow> count_is s a c \<Longrightarrow> int (length ls) \<le> c \<Longrightarrow>
    distinct (map fst ls) \<Longrightarrow>
    (\<forall>(k, g)\<in>set ls. member s k a \<and> groupHeap s g = None) \<Longrightarrow>
    \<exists>s'. leave_all e m ls s = Some s' \<and> state_ok s' \<and> count_is s' a (c - int (length ls))
      \<and> events s' = events s @
           replicate (length ls) (EMAC_RemoveMulticastAddress (vSetMultiCastIPv4MacAddress e a))
      \<and> (\<forall>k'. member s' k' a \<longleftrightarrow> (k' \<notin> fst ` set ls \<and> member s k' a))
      \<and> (\<forall>x. groupHeap s x = None \<longrightarrow> groupHeap s' x = None)"
proof (induction ls arbitrary: s c)
  case Nil
  then show ?case by simp
next
  case (Cons l ls)
  obtain k g where l: "l = (k, g)" by (cases l) auto
  have fr: "member s k a" "groupHeap s g = None" using Cons.prems(5) l by auto
  have cp: "1 \<le> c" using Cons.prems(3) by simp
  obtain s1 where l1: "leave e m k g s = Some s1" and ok1: "state_ok s1"
    and c1: "count_is s1 a (c - 1)"
    and e1: "events s1 = events s @ [EMAC_RemoveMulticastAddress (vSetMultiCastIPv4MacAddress e a)]"
    and m1: "\<forall>k'. member s1 k' a \<longleftrightarrow> (k' \<noteq> k \<and> member s k' a)"
    and g1: "\<forall>x. groupHeap s x = None \<longrightarrow> groupHeap s1 x = None"
    using leave_effect[OF env Cons.prems(1) ma fr Cons.prems(2) cp] by blast
  have d: "distinct (map fst ls)" "k \<notin> fst ` set ls" using Cons.prems(4) l by auto
  have mem1: "\<forall>(k', g')\<in>set ls. member s1 k' a \<and> groupHeap s1 g' = None"
  proof (intro ballI, clarify)
    fix k' g' assume in_ls: "(k', g') \<in> set ls"
    then have old: "member s k' a" "groupHeap s g' = None" using Cons.prems(5) by auto
    have "k' \<noteq> k" using in_ls d(2) by force
    then show "member s1 k' a \<and> groupHeap s1 g' = None" using old m1 g1 by auto
  qed
  have len: "int (length ls) \<le> c - 1" using Cons.prems(3) by simp
  obtain s' where la: "leave_all e m ls s1 = Some s'" and ok': "state_ok s'"
    and c': "count_is s' a (c - 1 - int (length ls))"
    and e': "events s' = events s1 @
           replicate (length ls) (EMAC_RemoveMulticastAddress (vSetMultiCastIPv4MacAddress e a))"
    and m': "\<forall>k'. member s' k' a \<longleftrightarrow> (k' \<notin> fst ` set ls \<and> member s1 k' a)"
    and g': "\<forall>x. groupHeap s1 x = None \<longrightarrow> groupHeap s' x = None"
    using Cons.IH[OF ok1 c1 len d(1) mem1] by blast
  have 1: "leave_all e m (l # ls) s = Some s'" using l l1 la by simp
  have eqc: "c - int (length (l # ls)) = c - 1 - int (length ls)" by simp
  have 2: "count_is s' a (c - int (length (l # ls)))" unfolding eqc by (rule c')
  have 3: "events s' = events s @
           replicate (length (l # ls)) (EMAC_RemoveMulticastAddress (vSetMultiCastIPv4MacAddress e a))"
    using e' e1 by simp
  have 4: "\<forall>k'. member s' k' a \<longleftrightarrow> (k' \<notin> fst ` set (l # ls) \<and> member s k' a)"
    using m' m1 l by auto
  have 5: "\<forall>x. groupHeap s x = None \<longrightarrow> groupHeap s' x = None" using g' g1 by blast
  show ?case using 1 ok' 2 3 4 5 by blast
qed

text \<open>
  Claim C2, amended (reference counting): if N distinct sockets that are not members each
  join a group that has no registry entry, every join with a report candidate
  (\<open>pxIGMPReportDesc\<close> is not \<open>NULL\<close>) and N at most 2147483647, the largest \<open>BaseType_t\<close>
  value, the registry has one entry for the group, with socket count N; if then N-1 of
  them leave it, exactly one registry entry for the group remains, with socket count 1;
  every one of those leaves calls \<open>xEMAC_RemoveMulticastAddress\<close> once with the group's MAC
  address (as every join called \<open>xEMAC_AddMulticastAddress\<close> once); the Nth leave removes
  the registry entry and calls \<open>xEMAC_RemoveMulticastAddress\<close> once more. The joins' and
  leaves' descriptors are freshly allocated.
\<close>

theorem C2_reference_counting:
  assumes env: "env_ok e" and ok: "state_ok s0" and ma: "imr_multiaddr m = a"
    and none: "entries_for s0 a = []"
    and nmax: "length js \<le> 2147483647"
    and js: "distinct (map fst js)" "distinct (map (\<lambda>j. fst (snd j)) js)" "distinct (map (\<lambda>j. snd (snd j)) js)"
      "\<forall>(k, g, r)\<in>set js. \<not> member s0 k a \<and> groupHeap s0 g = None \<and> reportHeap s0 r = None \<and> r \<noteq> 0"
    and ls: "distinct (map fst ls)" "fst ` set ls \<subseteq> fst ` set js" "length ls + 1 = length js"
      "\<forall>(k, g)\<in>set ls. groupHeap s0 g = None \<and> g \<notin> (\<lambda>j. fst (snd j)) ` set js"
    and last: "kl \<in> fst ` set js" "kl \<notin> fst ` set ls"
      "groupHeap s0 gl = None" "gl \<notin> (\<lambda>j. fst (snd j)) ` set js"
  shows "\<exists>s1 s2 s3. join_all e m js s0 = Some s1 \<and> leave_all e m ls s1 = Some s2
     \<and> leave e m kl gl s2 = Some s3
     \<and> (\<exists>p d. entries_for s1 a = [p] \<and> reportHeap s1 p = Some d \<and> sint (xNumSockets d) = int (length js))
     \<and> (\<exists>p d. entries_for s2 a = [p] \<and> reportHeap s2 p = Some d \<and> xNumSockets d = 1)
     \<and> entries_for s3 a = []
     \<and> events s1 = events s0 @
          replicate (length js) (EMAC_AddMulticastAddress (vSetMultiCastIPv4MacAddress e a))
     \<and> events s2 = events s1 @
          replicate (length ls) (EMAC_RemoveMulticastAddress (vSetMultiCastIPv4MacAddress e a))
     \<and> events s3 = events s2 @ [EMAC_RemoveMulticastAddress (vSetMultiCastIPv4MacAddress e a)]"
proof -
  have c0: "count_is s0 a 0" using none by (simp add: count_is_def)
  obtain s1 where j: "join_all e m js s0 = Some s1" and ok1: "state_ok s1"
    and c1: "count_is s1 a (0 + int (length js))"
    and e1: "events s1 = events s0 @
           replicate (length js) (EMAC_AddMulticastAddress (vSetMultiCastIPv4MacAddress e a))"
    and m1: "\<forall>k'. member s1 k' a \<longleftrightarrow> (k' \<in> fst ` set js \<or> member s0 k' a)"
    and g1: "\<forall>x. groupHeap s1 x = None \<longleftrightarrow> (x \<notin> (\<lambda>j. fst (snd j)) ` set js \<and> groupHeap s0 x = None)"
    using join_all_effect[OF env ma ok c0 _ _ js] nmax by auto
  have mem1: "\<forall>(k, g)\<in>set ls. member s1 k a \<and> groupHeap s1 g = None"
  proof (intro ballI, clarify)
    fix k g assume in_ls: "(k, g) \<in> set ls"
    then have "k \<in> fst ` set js" using ls(2) by force
    moreover have "groupHeap s0 g = None \<and> g \<notin> (\<lambda>j. fst (snd j)) ` set js" using ls(4) in_ls by auto
    ultimately show "member s1 k a \<and> groupHeap s1 g = None" using m1 g1 by auto
  qed
  have len: "int (length ls) \<le> 0 + int (length js)" using ls(3) by simp
  obtain s2 where l: "leave_all e m ls s1 = Some s2" and ok2: "state_ok s2"
    and c2: "count_is s2 a (0 + int (length js) - int (length ls))"
    and e2: "events s2 = events s1 @
           replicate (length ls) (EMAC_RemoveMulticastAddress (vSetMultiCastIPv4MacAddress e a))"
    and m2: "\<forall>k'. member s2 k' a \<longleftrightarrow> (k' \<notin> fst ` set ls \<and> member s1 k' a)"
    and g2: "\<forall>x. groupHeap s1 x = None \<longrightarrow> groupHeap s2 x = None"
    using leave_all_effect[OF env ma ok1 c1 len ls(1) mem1] by blast
  have one: "0 + int (length js) - int (length ls) = 1" using ls(3) by simp
  have c2': "count_is s2 a 1" using c2 one by simp
  have ml: "member s2 kl a" using m2 m1 last(1,2) by auto
  have gl2: "groupHeap s2 gl = None" using g2 g1 last(3,4) by auto
  obtain s3 where l3: "leave e m kl gl s2 = Some s3"
    and c3: "count_is s3 a (1 - 1)"
    and e3: "events s3 = events s2 @ [EMAC_RemoveMulticastAddress (vSetMultiCastIPv4MacAddress e a)]"
    using leave_effect[OF env ok2 ma ml gl2 c2'] by auto
  have n: "int (length js) \<noteq> 0" using ls(3) by auto
  have r1: "\<exists>p d. entries_for s1 a = [p] \<and> reportHeap s1 p = Some d \<and> sint (xNumSockets d) = int (length js)"
    using c1 n by (simp add: count_is_def)
  have r2: "\<exists>p d. entries_for s2 a = [p] \<and> reportHeap s2 p = Some d \<and> xNumSockets d = 1"
    using c2' BaseType_one by (auto simp: count_is_def)
  have r3: "entries_for s3 a = []" using c3 by (simp add: count_is_def)
  show ?thesis using j l l3 r1 r2 r3 e1 e2 e3 by blast
qed

section \<open>Evaluation on concrete inputs, and the invalid action\<close>

lemmas eval_defs = join_def leave_def vModifyMulticastMembership_def locate_group_def
  add_membership_def drop_membership_def xAddIGMPReportToList_def vRemoveIGMPReportFromList_def
  vPortFree_report_def vPortFree_group_def env0_def boot_def mreq0_def mac0_def
  group_addr_def report_addr_def Let_def

lemma env_ok_env0: "env_ok env0"
  by (simp add: env_ok_def env0_def)

text \<open>
  Claim C2 as stated fails: after two sockets have joined, the first (N-1 = 1) leave
  already calls \<open>xEMAC_RemoveMulticastAddress\<close>. It also fails for a join that carries no
  report candidate (\<open>pxIGMPReportDesc\<close> is \<open>NULL\<close>), which the registry does not count:
  after socket 1 has joined with a candidate and socket 2 without one, the registry's
  count is 1, and the leave of socket 1 empties the registry while socket 2 is still a
  member of the group.
\<close>

theorem C2_filter_touched_by_first_leave:
  "map_option events (join_all env0 mreq0 [(1, 10, 20), (2, 11, 21)] boot)
     = Some [EMAC_AddMulticastAddress mac0, EMAC_AddMulticastAddress mac0]
   \<and> map_option events
       (Option.bind (join_all env0 mreq0 [(1, 10, 20), (2, 11, 21)] boot)
          (leave_all env0 mreq0 [(1, 12)]))
     = Some [EMAC_AddMulticastAddress mac0, EMAC_AddMulticastAddress mac0,
             EMAC_RemoveMulticastAddress mac0]
   \<and> map_option registry_counts (join_all env0 mreq0 [(1, 10, 20), (2, 11, 0)] boot)
     = Some [(0xE0000105, 1)]
   \<and> map_option registry_counts
       (Option.bind (join_all env0 mreq0 [(1, 10, 20), (2, 11, 0)] boot)
          (leave_all env0 mreq0 [(1, 12)]))
     = Some []
   \<and> map_option (socket_groups 2)
       (Option.bind (join_all env0 mreq0 [(1, 10, 20), (2, 11, 0)] boot)
          (leave_all env0 mreq0 [(1, 12)]))
     = Some [0xE0000105]"
  by (simp add: eval_defs registry_counts_def socket_groups_def)

theorem C2_reference_counting_witness:
  "env_ok env0 \<and> state_ok boot \<and> entries_for boot 0xE0000105 = []
   \<and> (\<exists>s1 s2 s3. join_all env0 mreq0 [(1, 10, 20), (2, 11, 21)] boot = Some s1
        \<and> leave_all env0 mreq0 [(1, 12)] s1 = Some s2
        \<and> leave env0 mreq0 2 12 s2 = Some s3
        \<and> (\<exists>p d. entries_for s2 0xE0000105 = [p] \<and> reportHeap s2 p = Some d \<and> xNumSockets d = 1)
        \<and> entries_for s3 0xE0000105 = []
        \<and> events s2 = events s1 @ [EMAC_RemoveMulticastAddress mac0]
        \<and> events s3 = events s2 @ [EMAC_RemoveMulticastAddress mac0])"
proof -
  have ma: "imr_multiaddr mreq0 = 0xE0000105" by (simp add: mreq0_def)
  have none: "entries_for boot 0xE0000105 = []" by (simp add: entries_for_def boot_def)
  have mac: "vSetMultiCastIPv4MacAddress env0 0xE0000105 = mac0" by (simp add: env0_def mac0_def)
  have js: "distinct (map fst [(1::nat, 10::nat, 20::nat), (2, 11, 21)])"
    "distinct (map (\<lambda>j. fst (snd j)) [(1::nat, 10::nat, 20::nat), (2, 11, 21)])"
    "distinct (map (\<lambda>j. snd (snd j)) [(1::nat, 10::nat, 20::nat), (2, 11, 21)])"
    "\<forall>(k, g, r)\<in>set [(1::nat, 10::nat, 20::nat), (2, 11, 21)].
        \<not> member boot k 0xE0000105 \<and> groupHeap boot g = None \<and> reportHeap boot r = None \<and> r \<noteq> 0"
    by (simp_all add: member_def boot_def)
  have ls: "distinct (map fst [(1::nat, 12::nat)])"
    "fst ` set [(1::nat, 12::nat)] \<subseteq> fst ` set [(1::nat, 10::nat, 20::nat), (2, 11, 21)]"
    "length [(1::nat, 12::nat)] + 1 = length [(1::nat, 10::nat, 20::nat), (2, 11, 21)]"
    "\<forall>(k, g)\<in>set [(1::nat, 12::nat)]. groupHeap boot g = None
        \<and> g \<notin> (\<lambda>j. fst (snd j)) ` set [(1::nat, 10::nat, 20::nat), (2, 11, 21)]"
    by (simp_all add: boot_def)
  have last: "(2::nat) \<in> fst ` set [(1::nat, 10::nat, 20::nat), (2, 11, 21)]"
    "(2::nat) \<notin> fst ` set [(1::nat, 12::nat)]"
    "groupHeap boot 12 = None"
    "(12::nat) \<notin> (\<lambda>j. fst (snd j)) ` set [(1::nat, 10::nat, 20::nat), (2, 11, 21)]"
    by (simp_all add: boot_def)
  have nmax: "length [(1::nat, 10::nat, 20::nat), (2, 11, 21)] \<le> 2147483647" by simp
  obtain s1 s2 s3 where j: "join_all env0 mreq0 [(1, 10, 20), (2, 11, 21)] boot = Some s1"
    and l: "leave_all env0 mreq0 [(1, 12)] s1 = Some s2"
    and l3: "leave env0 mreq0 2 12 s2 = Some s3"
    and r2: "\<exists>p d. entries_for s2 0xE0000105 = [p] \<and> reportHeap s2 p = Some d \<and> xNumSockets d = 1"
    and r3: "entries_for s3 0xE0000105 = []"
    and e2: "events s2 = events s1 @
          replicate (length [(1::nat, 12::nat)])
            (EMAC_RemoveMulticastAddress (vSetMultiCastIPv4MacAddress env0 0xE0000105))"
    and e3: "events s3 = events s2 @
          [EMAC_RemoveMulticastAddress (vSetMultiCastIPv4MacAddress env0 0xE0000105)]"
    using C2_reference_counting[OF env_ok_env0 state_ok_boot ma none nmax js ls last] by blast
  have e2': "events s2 = events s1 @ [EMAC_RemoveMulticastAddress mac0]" using e2 mac by simp
  have e3': "events s3 = events s2 @ [EMAC_RemoveMulticastAddress mac0]" using e3 mac by simp
  show ?thesis using j l l3 r2 r3 e2' e3' env_ok_env0 state_ok_boot none by blast
qed

lemma reachable_two_joined: "reachable env0 two_joined"
proof -
  let ?a = "eSocketOptAddMembership env0"
  have r0: "reachable env0 started"
    by (rule reachable.init[where pxIRD = 0])
       (simp add: vIGMP_Init_def env0_def boot_def started_def mac0_def)
  let ?s1 = "started\<lparr>groupHeap := (groupHeap started)(10 \<mapsto> group0 1 20)\<rparr>"
  have r1: "reachable env0 ?s1"
    by (rule reachable.malloc_group[OF r0]) (simp_all add: started_def boot_def)
  let ?s2 = "?s1\<lparr>reportHeap := (reportHeap ?s1)(20 \<mapsto> candidate)\<rparr>"
  have r2: "reachable env0 ?s2"
    by (rule reachable.malloc_report[OF r1]) (simp_all add: started_def boot_def)
  let ?s3 = "started\<lparr>xIGMP_ScheduleList := [20],
      reportHeap := [20 \<mapsto> \<lparr>IGMPReportDesc_t.mreq = mreq0, xNumSockets = 1, ucCountDown = 7\<rparr>],
      groupHeap := [10 \<mapsto> group0 1 20],
      xMulticastGroupsList := (\<lambda>k. [])(1 := [10]),
      rndCalls := 1,
      events := [EMAC_AddMulticastAddress mac0, EMAC_AddMulticastAddress mac0]\<rparr>"
  have own2: "caller_owned 10 ?s2"
    by (simp add: caller_owned_def started_def boot_def group0_def)
  have m2: "vModifyMulticastMembership env0 10 ?a ?s2 = Some ?s3"
    by (simp add: eval_defs started_def group0_def candidate_def)
  have r3: "reachable env0 ?s3" by (rule reachable.modify[OF r2 own2 m2])
  let ?s4 = "?s3\<lparr>groupHeap := (groupHeap ?s3)(11 \<mapsto> group0 2 21)\<rparr>"
  have r4: "reachable env0 ?s4"
    by (rule reachable.malloc_group[OF r3]) (simp_all add: started_def boot_def)
  let ?s5 = "?s4\<lparr>reportHeap := (reportHeap ?s4)(21 \<mapsto> candidate)\<rparr>"
  have r5: "reachable env0 ?s5"
    by (rule reachable.malloc_report[OF r4]) (simp_all add: started_def boot_def)
  have own5: "caller_owned 11 ?s5"
    by (simp add: caller_owned_def started_def boot_def group0_def)
  have m5: "vModifyMulticastMembership env0 11 ?a ?s5 = Some two_joined"
    by (simp add: eval_defs started_def group0_def candidate_def two_joined_def fun_upd_twist)
  show ?thesis by (rule reachable.modify[OF r5 own5 m5])
qed

theorem C1_registry_unique_witness:
  "env_ok env0 \<and> reachable env0 two_joined
   \<and> xIGMP_ScheduleList two_joined = [20]
   \<and> map_option xNumSockets (reportHeap two_joined 20) = Some 2
   \<and> distinct (xIGMP_ScheduleList two_joined)
   \<and> (\<exists>s'. vModifyMulticastMembership env0 10 (eSocketOptDropMembership env0) two_joined = Some s')"
proof -
  have l: "linked 10 two_joined"
    by (simp add: linked_def two_joined_def group0_def)
  have "\<exists>s'. vModifyMulticastMembership env0 10 (eSocketOptDropMembership env0) two_joined = Some s'"
    using C1_registry_unique[OF env_ok_env0 reachable_two_joined] l by blast
  moreover have "distinct (xIGMP_ScheduleList two_joined)"
    using C1_registry_unique[OF env_ok_env0 reachable_two_joined] by blast
  ultimately show ?thesis using env_ok_env0 reachable_two_joined
    by (simp add: two_joined_def)
qed

lemma xAdd_frame:
  "xAddIGMPReportToList e p s = Some (b, s') \<Longrightarrow>
   xMulticastGroupsList s' = xMulticastGroupsList s \<and> groupHeap s' = groupHeap s"
  by (auto simp: xAddIGMPReportToList_def Let_def split: Option.bind_splits option.splits)

lemma vRemove_frame:
  "vRemoveIGMPReportFromList m s = Some s' \<Longrightarrow>
   xMulticastGroupsList s' = xMulticastGroupsList s \<and> groupHeap s' = groupHeap s"
  by (auto simp: vRemoveIGMPReportFromList_def vPortFree_report_def Let_def
      split: Option.bind_splits option.splits if_splits)

lemma vPortFree_report_frame:
  "vPortFree_report p s = Some s' \<Longrightarrow>
   xMulticastGroupsList s' = xMulticastGroupsList s \<and> groupHeap s' = groupHeap s"
  by (auto simp: vPortFree_report_def split: option.splits)

lemma vPortFree_group_frame:
  "vPortFree_group p s = Some s' \<Longrightarrow>
   xMulticastGroupsList s' = xMulticastGroupsList s \<and> groupHeap s' = (groupHeap s)(p := None)"
  by (auto simp: vPortFree_group_def split: option.splits)

lemma locate_group_cases:
  assumes "locate_group e g gd bAction s = Some (it, bi, bm, s1)"
  shows "(it = None \<and> bi \<and> \<not> bm)
     \<or> (\<exists>g0. it = Some g0 \<and> eSocketOptDropMembership e = bAction \<and> bi = (g \<noteq> g0) \<and> bm)
     \<or> (\<exists>g0. it = Some g0 \<and> eSocketOptDropMembership e \<noteq> bAction \<and> bi \<and> \<not> bm)"
  using assms
  by (auto simp: locate_group_def split: Option.bind_splits option.splits if_splits)

lemma add_membership_cases:
  assumes "add_membership e g gd it bi s = Some (b', s')"
  shows "(it = None \<longrightarrow> \<not> b' \<and> g \<in> set (xMulticastGroupsList s' (pxSocket gd)))
     \<and> (it \<noteq> None \<longrightarrow> b' = bi)"
proof (cases it)
  case None
  let ?s1 = "s\<lparr>xMulticastGroupsList := (xMulticastGroupsList s)
                        (pxSocket gd := xMulticastGroupsList s (pxSocket gd) @ [g]),
                      events := events s @
                        [EMAC_AddMulticastAddress (vSetMultiCastIPv4MacAddress e (group_addr gd))]\<rparr>"
  have g1: "g \<in> set (xMulticastGroupsList ?s1 (pxSocket gd))" by simp
  show ?thesis
  proof (cases "pxIGMPReportDesc gd = 0")
    case True
    then show ?thesis using assms None by (auto simp: add_membership_def)
  next
    case False
    then obtain c s2 where x: "xAddIGMPReportToList e (pxIGMPReportDesc gd) ?s1 = Some (c, s2)"
      using assms None by (auto simp: add_membership_def Let_def split: Option.bind_splits)
    have f2: "xMulticastGroupsList s2 = xMulticastGroupsList ?s1" using xAdd_frame[OF x] by simp
    show ?thesis
    proof (cases c)
      case True
      then show ?thesis using assms None False x f2 by (auto simp: add_membership_def)
    next
      case nc: False
      then obtain s3 where fr: "vPortFree_report (pxIGMPReportDesc gd) s2 = Some s3"
        using assms None False x by (auto simp: add_membership_def split: Option.bind_splits)
      have f3: "xMulticastGroupsList s3 = xMulticastGroupsList s2"
        using vPortFree_report_frame[OF fr] by simp
      show ?thesis using assms None False x nc fr f2 f3 by (auto simp: add_membership_def)
    qed
  qed
next
  case (Some g0)
  then show ?thesis using assms
    by (auto simp: add_membership_def split: Option.bind_splits if_splits)
qed

text \<open>
  Claim C10 (invalid-action no-op): with an action that is neither
  \<open>eSocketOptAddMembership\<close> nor \<open>eSocketOptDropMembership\<close> the function returns the state
  unchanged (socket lists, registry, link-layer calls, and the input descriptor, which
  stays allocated); with a valid action, whenever it returns, the input descriptor is
  either freed or linked into a socket's list; and it does return on a well-formed state
  for a caller-owned or a linked descriptor.
\<close>

theorem C10_invalid_action_noop:
  "(eSocketOptAddMembership e \<noteq> bAction \<and> eSocketOptDropMembership e \<noteq> bAction \<longrightarrow>
      vModifyMulticastMembership e g bAction s = Some s)
   \<and> (\<forall>s'. (eSocketOptAddMembership e = bAction \<or> eSocketOptDropMembership e = bAction) \<longrightarrow>
        vModifyMulticastMembership e g bAction s = Some s' \<longrightarrow>
        groupHeap s' g = None \<or> (\<exists>k. g \<in> set (xMulticastGroupsList s' k)))
   \<and> (env_ok e \<and> state_ok s
        \<and> (caller_owned g s \<or> (linked g s \<and> bAction = eSocketOptDropMembership e)) \<longrightarrow>
        (\<exists>s'. vModifyMulticastMembership e g bAction s = Some s'))"
proof (intro conjI impI allI)
  assume "env_ok e \<and> state_ok s
        \<and> (caller_owned g s \<or> (linked g s \<and> bAction = eSocketOptDropMembership e))"
  then show "\<exists>s'. vModifyMulticastMembership e g bAction s = Some s'"
    using vModify_state_ok[of e s g bAction] by blast
next
  assume "eSocketOptAddMembership e \<noteq> bAction \<and> eSocketOptDropMembership e \<noteq> bAction"
  then show "vModifyMulticastMembership e g bAction s = Some s"
    by (simp add: vModifyMulticastMembership_def)
next
  fix s'
  assume valid: "eSocketOptAddMembership e = bAction \<or> eSocketOptDropMembership e = bAction"
    and eq: "vModifyMulticastMembership e g bAction s = Some s'"
  from eq valid obtain gd it bi bm s1 b' s2 s3 where
      g: "groupHeap s g = Some gd"
    and loc: "locate_group e g gd bAction s = Some (it, bi, bm, s1)"
    and br: "(if eSocketOptAddMembership e = bAction
            then add_membership e g gd it bi s1
            else map_option (Pair bi) (drop_membership e gd it s1)) = Some (b', s2)"
    and f1: "(if b' then vPortFree_group g s2 else Some s2) = Some s3"
    and f2: "(if bm then (case it of None \<Rightarrow> None | Some pxMCG \<Rightarrow> vPortFree_group pxMCG s3)
             else Some s3) = Some s'"
    by (auto simp: vModifyMulticastMembership_def split: Option.bind_splits if_splits prod.splits)
  have keep: "groupHeap s' g = None \<or> (\<exists>k. g \<in> set (xMulticastGroupsList s' k))"
    if "groupHeap s3 g = None \<or> (\<not> bm \<and> (\<exists>k. g \<in> set (xMulticastGroupsList s3 k)))"
    using that f2 vPortFree_group_frame
    by (cases bm; cases it) (auto split: if_splits)
  have b'_cases: "(it = None \<and> (b' \<or> g \<in> set (xMulticastGroupsList s2 (pxSocket gd))) \<and> \<not> bm)
      \<or> (\<exists>g0. it = Some g0 \<and> (b' \<or> (g = g0 \<and> bm)))"
  proof (cases "eSocketOptAddMembership e = bAction")
    case True
    then have a: "add_membership e g gd it bi s1 = Some (b', s2)" using br by simp
    show ?thesis using add_membership_cases[OF a] locate_group_cases[OF loc] by auto
  next
    case False
    then have "b' = bi" using br by auto
    then show ?thesis using locate_group_cases[OF loc] False valid by auto
  qed
  show "groupHeap s' g = None \<or> (\<exists>k. g \<in> set (xMulticastGroupsList s' k))"
  proof (cases b')
    case True
    then have "groupHeap s3 g = None" using f1 vPortFree_group_frame[of g s2 s3] by simp
    then show ?thesis using keep by simp
  next
    case False
    then have s3: "s3 = s2" using f1 by simp
    from b'_cases False consider
        (new) "it = None" "g \<in> set (xMulticastGroupsList s2 (pxSocket gd))" "\<not> bm"
      | (same) "it = Some g" "bm"
      by auto
    then show ?thesis
    proof cases
      case new
      then show ?thesis using s3 keep by auto
    next
      case same
      then have "vPortFree_group g s3 = Some s'" using f2 by simp
      then show ?thesis using vPortFree_group_frame[of g s3 s'] by simp
    qed
  qed
qed

theorem C10_invalid_action_noop_witness:
  "eSocketOptAddMembership env0 \<noteq> 7 \<and> eSocketOptDropMembership env0 \<noteq> 7
   \<and> vModifyMulticastMembership env0 10 7 two_joined = Some two_joined
   \<and> groupHeap two_joined 10 \<noteq> None
   \<and> vModifyMulticastMembership env0 10 (eSocketOptDropMembership env0) two_joined \<noteq> None"
proof -
  have a: "eSocketOptAddMembership env0 \<noteq> 7 \<and> eSocketOptDropMembership env0 \<noteq> 7"
    by (simp add: env0_def)
  have "vModifyMulticastMembership env0 10 7 two_joined = Some two_joined"
    using C10_invalid_action_noop[of env0 7 10 two_joined] a by blast
  moreover have "vModifyMulticastMembership env0 10 (eSocketOptDropMembership env0) two_joined \<noteq> None"
    by (simp add: eval_defs two_joined_def group0_def)
  ultimately show ?thesis using a by (simp add: two_joined_def)
qed

end
